theory Spec2Isabelle
  imports Main "HOL-Library.Sublist"
begin

section \<open>The service bootstrap of onos\_ric\_sdk\_py\<close>

text \<open>
  The module \<^verbatim>\<open>onos_ric_sdk_py/__init__.py\<close> has one entry operation, \<^verbatim>\<open>run\<close>, two
  scoped hooks, \<^verbatim>\<open>run_main\<close> and \<^verbatim>\<open>run_listener\<close>, and the coroutine
  \<^verbatim>\<open>shutdown_listener\<close>. They are embedded here as functions on an explicit state: the
  application object, the two background tasks and the list of effects in the order the
  process performs them. What the environment does while the server loop runs (a request
  sets the shutdown event, time passes, a signal arrives, the body of \<^verbatim>\<open>main\<close> ends) is
  an input, a list of stimuli.

  The web framework and the event loop are not part of the module. Of the framework the
  embedding keeps what the module relies on: the router that refuses a registration with
  a \<^verbatim>\<open>RuntimeError\<close>, and the cleanup contexts of the server loop, which enter the
  hooks in their order and leave them in reverse. Of the event loop it keeps the states of
  the two tasks. Time is counted in whole units, the signals \<^verbatim>\<open>SIGTERM\<close> and
  \<^verbatim>\<open>SIGINT\<close> from outside are one stimulus, \<^verbatim>\<open>setup_swagger\<close> is an effect in the
  trace and nothing else, and a teardown is not interrupted by further stimuli.
\<close>

subsection \<open>Exceptions, coroutines and values\<close>

text \<open>
  The exceptions that occur. \<^verbatim>\<open>DuplicateRouteError\<close> carries the list that the source
  prints after the fixed text
  \<^verbatim>\<open>A user-supplied route conflicts with a pre-registered route: \<close>.
  \<^verbatim>\<open>CleanupError\<close> is the framework's, raised when several teardown steps fail.
\<close>

datatype exn =
    ValueError string
  | RuntimeError string
  | KeyError string
  | TypeError string
  | CancelledError
  | DuplicateRouteError "(string \<times> string) list"
  | CleanupError "exn list"

text \<open>How the body of a coroutine ends: it returns or it raises.\<close>

datatype outcome = Returns | Raises exn

text \<open>
  An object that a task can run, as far as the orchestrator observes it: a coroutine
  object (\<^verbatim>\<open>types.CoroutineType\<close>) or a generator object (\<^verbatim>\<open>types.GeneratorType\<close>),
  both with \<^verbatim>\<open>send\<close>, \<^verbatim>\<open>throw\<close> and \<^verbatim>\<open>close\<close>; the text that \<^verbatim>\<open>str\<close> gives of it;
  whether it has not been started yet
  (\<^verbatim>\<open>CORO_CREATED\<close>) or has already been run to its end or closed
  (\<^verbatim>\<open>CORO_CLOSED\<close>); and what its body does when a \<^verbatim>\<open>CancelledError\<close> is thrown into
  it at a suspension point: let it propagate (\<open>Raises CancelledError\<close>), raise something
  else, or return. A body that suppresses the cancellation and keeps running is not
  modelled.
\<close>

datatype routine_kind = CoroutineType | GeneratorType

datatype coro_status = CORO_CREATED | CORO_CLOSED

record coroutine =
  coro_kind :: routine_kind
  coro_str :: string
  coro_status :: coro_status
  on_cancel :: outcome

text \<open>
  A Python value passed as \<^verbatim>\<open>main\<close>: a coroutine object or a generator object, or any
  other object (a plain function, a coroutine function that was not called, \<^verbatim>\<open>None\<close>,
  a number), of which \<^verbatim>\<open>run\<close> only observes the text that \<^verbatim>\<open>str\<close> gives.
\<close>

datatype pyvalue = PyRoutine coroutine | PyObject string

text \<open>
  \<^verbatim>\<open>asyncio.coroutines.iscoroutine\<close>, the guard of \<^verbatim>\<open>run\<close>. It is true of every
  coroutine object, started or not. Of a generator object it is true in the asyncio of
  Python up to 3.11, where generator-based coroutines are still counted, and false from
  Python 3.12 on; the first argument says which asyncio it is.
\<close>

fun iscoroutine :: "bool \<Rightarrow> pyvalue \<Rightarrow> bool" where
  "iscoroutine gen (PyRoutine c) = (coro_kind c = CoroutineType \<or> gen)"
| "iscoroutine gen (PyObject s) = False"

fun py_str :: "pyvalue \<Rightarrow> string" where
  "py_str (PyRoutine c) = coro_str c"
| "py_str (PyObject s) = s"

subsection \<open>The application object\<close>

text \<open>
  An entry of the default route table \<^verbatim>\<open>routes\<close> of \<^verbatim>\<open>.server\<close>: a \<^verbatim>\<open>web.RouteDef\<close>
  (method, path, handler) or a \<^verbatim>\<open>web.StaticDef\<close> (prefix, directory). The table itself
  is not part of this module and is a parameter of \<^verbatim>\<open>run\<close> below.
\<close>

datatype route_item =
    RouteDef string string string
  | StaticDef string string

text \<open>
  The router of the web framework keeps a list of resources, each a path with the methods
  registered on it. Registering a route reuses the most recently added resource when it
  has the same path, and that resource refuses a method it already serves with a
  \<^verbatim>\<open>RuntimeError\<close>; otherwise a new resource is appended. This is the router as far as
  \<^verbatim>\<open>run\<close> depends on it, namely that it may refuse a registration. Left out are the
  \<^verbatim>\<open>HEAD\<close> route that the framework registers along with a \<^verbatim>\<open>GET\<close> route, the
  method \<^verbatim>\<open>*\<close>, which refuses every later method, and the names of resources, which
  must agree for a resource to be reused. The statements below that are about a refused
  merge take the refusal as their hypothesis and say nothing on when the router refuses.
\<close>

record resource =
  res_path :: string
  res_methods :: "string list"

fun add_route :: "resource list \<Rightarrow> string \<Rightarrow> string \<Rightarrow> exn + resource list" where
  "add_route [] m p = Inr [\<lparr>res_path = p, res_methods = [m]\<rparr>]"
| "add_route (r # rs) m p =
     (let l = last (r # rs) in
      if res_path l = p then
        (if m \<in> set (res_methods l)
         then Inl (RuntimeError ''Added route will never be executed, method is already registered'')
         else Inr (butlast (r # rs) @ [l\<lparr>res_methods := res_methods l @ [m]\<rparr>]))
      else Inr ((r # rs) @ [\<lparr>res_path = p, res_methods = [m]\<rparr>]))"

text \<open>What an application stores under its string keys.\<close>

datatype entry = VPy pyvalue | VStr string | VEvent bool

text \<open>
  The scoped hooks of \<^verbatim>\<open>cleanup_ctx\<close>: the two of this module, and any other that a
  caller's application already holds (it runs, and is not looked into).
\<close>

datatype hook = Run_main | Run_listener | User_ctx string

record application =
  middlewares :: "string list"
  store :: "string \<rightharpoonup> entry"
  router :: "resource list"
  cleanup_ctx :: "hook list"

definition error_middleware :: string where
  "error_middleware = ''error_middleware''"

definition Application :: "string list \<Rightarrow> application" where
  "Application ms = \<lparr>middlewares = ms, store = Map.empty, router = [], cleanup_ctx = []\<rparr>"

text \<open>
  \<^verbatim>\<open>app.add_routes(routes)\<close> registers the entries one after the other and stops at the
  first that is refused; the entries registered before it stay registered.
\<close>

fun add_routes :: "application \<Rightarrow> route_item list \<Rightarrow> exn option \<times> application" where
  "add_routes a [] = (None, a)"
| "add_routes a (RouteDef m p h # rs) =
     (case add_route (router a) m p of
        Inl e \<Rightarrow> (Some e, a)
      | Inr r' \<Rightarrow> add_routes (a\<lparr>router := r'\<rparr>) rs)"
| "add_routes a (StaticDef pfx dir # rs) =
     add_routes (a\<lparr>router := router a @ [\<lparr>res_path = pfx, res_methods = []\<rparr>]\<rparr>) rs"

text \<open>
  \<^verbatim>\<open>[(r.method, r.path) for r in routes if isinstance(r, web.RouteDef)]\<close>
\<close>

fun resources_of :: "route_item list \<Rightarrow> (string \<times> string) list" where
  "resources_of [] = []"
| "resources_of (RouteDef m p h # rs) = (m, p) # resources_of rs"
| "resources_of (StaticDef pfx dir # rs) = resources_of rs"

subsection \<open>Tasks, effects and the state of the process\<close>

text \<open>
  A task is pending, at some point of its coroutine, or done: with a result, with an
  exception, or cancelled.
\<close>

datatype task_end = T_Result | T_Exception exn | T_Cancelled

datatype 'a task = Pending 'a | Done task_end

fun task_end_of :: "outcome \<Rightarrow> task_end" where
  "task_end_of Returns = T_Result"
| "task_end_of (Raises e) = (if e = CancelledError then T_Cancelled else T_Exception e)"

text \<open>\<^verbatim>\<open>await task\<close> on a task that is done: nothing, or the exception it raises.\<close>

fun await_task :: "task_end \<Rightarrow> exn option" where
  "await_task T_Result = None"
| "await_task (T_Exception e) = Some e"
| "await_task T_Cancelled = Some CancelledError"

text \<open>\<^verbatim>\<open>try: await task  except asyncio.CancelledError: pass\<close>\<close>

fun swallow_cancelled :: "exn option \<Rightarrow> exn option" where
  "swallow_cancelled None = None"
| "swallow_cancelled (Some e) = (if e = CancelledError then None else Some e)"

text \<open>The two suspension points of \<^verbatim>\<open>shutdown_listener\<close>; the sleep has a remaining time.\<close>

datatype listener_pc = AtWait | AtSleep nat

datatype task_id = MainTask | ListenerTask

datatype signal = SIGTERM | SIGINT

datatype effect =
    BasicConfig
  | CoroutineClosed
  | SwaggerSetup
  | StartupBegin hook
  | StartupEnd hook
  | TaskCreated task_id
  | ServerAccepting
  | ServerStopping
  | LogWarning string
  | SleepStarted nat
  | Kill nat signal
  | TeardownBegin hook
  | TeardownEnd hook
  | TaskCancel task_id
  | TaskAwaited task_id

record world =
  app :: application
  main_task :: "coroutine task option"
  listener_task :: "listener_pc task option"
  trace :: "effect list"

definition emit :: "effect \<Rightarrow> world \<Rightarrow> world" where
  "emit e w = w\<lparr>trace := trace w @ [e]\<rparr>"

definition set_item :: "string \<Rightarrow> entry \<Rightarrow> application \<Rightarrow> application" where
  "set_item k v a = a\<lparr>store := (store a)(k \<mapsto> v)\<rparr>"

subsection \<open>run\_main\<close>

text \<open>
  \<^verbatim>\<open>asyncio.create_task(coro)\<close>, for an object that has passed the guard of \<^verbatim>\<open>run\<close>
  (the task applies the same test): the task runs it. A generator that is exhausted ends
  at once, with a result; a coroutine that was
  already awaited fails at its first step.
\<close>

definition create_task :: "coroutine \<Rightarrow> coroutine task" where
  "create_task c =
     (if coro_status c = CORO_CLOSED
      then (if coro_kind c = GeneratorType then Done T_Result
            else Done (T_Exception (RuntimeError ''cannot reuse already awaited coroutine'')))
      else Pending c)"

text \<open>The part of \<^verbatim>\<open>run_main\<close> before its \<^verbatim>\<open>yield\<close>.\<close>

definition run_main_startup :: "world \<Rightarrow> exn option \<times> world" where
  "run_main_startup w =
     (case store (app w) ''main'' of
        None \<Rightarrow> (Some (KeyError ''main''), w)
      | Some (VPy (PyRoutine c)) \<Rightarrow>
          (None, emit (TaskCreated MainTask) (w\<lparr>main_task := Some (create_task c)\<rparr>))
      | Some _ \<Rightarrow> (Some (TypeError ''a coroutine was expected''), w))"

text \<open>
  \<^verbatim>\<open>task.cancel()\<close> on a pending task throws \<^verbatim>\<open>CancelledError\<close> into its coroutine,
  which ends as its body decides; on a task that is done it does nothing.
\<close>

fun cancel_main :: "coroutine task \<Rightarrow> task_end" where
  "cancel_main (Pending c) = task_end_of (on_cancel c)"
| "cancel_main (Done t) = t"

text \<open>
  The part of \<^verbatim>\<open>run_main\<close> after its \<^verbatim>\<open>yield\<close>: cancel, await, swallow the
  cancellation. It runs only after the part before the \<^verbatim>\<open>yield\<close> has completed, so the
  task exists; the case without a task is there to make the function total.
\<close>

definition run_main_teardown :: "world \<Rightarrow> exn option \<times> world" where
  "run_main_teardown w =
     (case main_task w of
        None \<Rightarrow> (None, w)
      | Some t \<Rightarrow>
          (let t' = cancel_main t;
               w1 = emit (TaskCancel MainTask) (w\<lparr>main_task := Some (Done t')\<rparr>);
               w2 = emit (TaskAwaited MainTask) w1
           in (swallow_cancelled (await_task t'), w2)))"

subsection \<open>run\_listener and shutdown\_listener\<close>

definition event_is_set :: "world \<Rightarrow> bool" where
  "event_is_set w = (store (app w) ''shutdown_event'' = Some (VEvent True))"

text \<open>
  \<^verbatim>\<open>shutdown_listener\<close> resumed at \<^verbatim>\<open>await app["shutdown_event"].wait()\<close>: once the event
  is set it logs the warning and starts \<^verbatim>\<open>asyncio.sleep(1)\<close>.
\<close>

definition listener_wake :: "world \<Rightarrow> world" where
  "listener_wake w =
     (if listener_task w = Some (Pending AtWait) \<and> event_is_set w
      then emit (SleepStarted 1)
             (emit (LogWarning ''Shutting down!'') (w\<lparr>listener_task := Some (Pending (AtSleep 1))\<rparr>))
      else w)"

text \<open>
  One time unit passes. A listener whose sleep ends with it continues to
  \<^verbatim>\<open>os.kill(os.getpid(), signal.SIGTERM)\<close> and returns; the flag returned says that the
  process has sent itself the signal.
\<close>

definition listener_tick :: "nat \<Rightarrow> world \<Rightarrow> bool \<times> world" where
  "listener_tick pid w =
     (case listener_task w of
        Some (Pending (AtSleep n)) \<Rightarrow>
          (if n \<le> 1
           then (True, emit (Kill pid SIGTERM) (w\<lparr>listener_task := Some (Done T_Result)\<rparr>))
           else (False, w\<lparr>listener_task := Some (Pending (AtSleep (n - 1)))\<rparr>))
      | _ \<Rightarrow> (False, w))"

text \<open>
  The part of \<^verbatim>\<open>run_listener\<close> before its \<^verbatim>\<open>yield\<close>: a new, unset event is stored and
  the listener task is created; it reaches its first \<^verbatim>\<open>await\<close>, on the unset event.
\<close>

definition run_listener_startup :: "world \<Rightarrow> exn option \<times> world" where
  "run_listener_startup w =
     (let w1 = w\<lparr>app := set_item ''shutdown_event'' (VEvent False) (app w)\<rparr>;
          w2 = emit (TaskCreated ListenerTask) (w1\<lparr>listener_task := Some (Pending AtWait)\<rparr>)
      in (None, w2))"

text \<open>\<^verbatim>\<open>shutdown_listener\<close> catches nothing: a cancellation at either \<^verbatim>\<open>await\<close> ends it.\<close>

fun cancel_listener :: "listener_pc task \<Rightarrow> task_end" where
  "cancel_listener (Pending pc) = T_Cancelled"
| "cancel_listener (Done t) = t"

definition run_listener_teardown :: "world \<Rightarrow> exn option \<times> world" where
  "run_listener_teardown w =
     (case listener_task w of
        None \<Rightarrow> (None, w)
      | Some t \<Rightarrow>
          (let t' = cancel_listener t;
               w1 = emit (TaskCancel ListenerTask) (w\<lparr>listener_task := Some (Done t')\<rparr>);
               w2 = emit (TaskAwaited ListenerTask) w1
           in (swallow_cancelled (await_task t'), w2)))"

subsection \<open>The server loop of the framework\<close>

text \<open>
  \<^verbatim>\<open>web.run_app\<close> is the framework's. Its cleanup contexts run the startup parts of the
  hooks in the order of \<^verbatim>\<open>cleanup_ctx\<close> before the server accepts connections, and on
  termination the teardown parts of the hooks that were entered, in reverse order,
  collecting their exceptions: one is raised as it is, several as a \<^verbatim>\<open>CleanupError\<close>.
\<close>

fun hook_body_startup :: "hook \<Rightarrow> world \<Rightarrow> exn option \<times> world" where
  "hook_body_startup Run_main w = run_main_startup w"
| "hook_body_startup Run_listener w = run_listener_startup w"
| "hook_body_startup (User_ctx n) w = (None, w)"

fun hook_body_teardown :: "hook \<Rightarrow> world \<Rightarrow> exn option \<times> world" where
  "hook_body_teardown Run_main w = run_main_teardown w"
| "hook_body_teardown Run_listener w = run_listener_teardown w"
| "hook_body_teardown (User_ctx n) w = (None, w)"

definition hook_startup :: "hook \<Rightarrow> world \<Rightarrow> exn option \<times> world" where
  "hook_startup h w =
     (case hook_body_startup h (emit (StartupBegin h) w) of
        (None, w') \<Rightarrow> (None, emit (StartupEnd h) w')
      | (Some e, w') \<Rightarrow> (Some e, w'))"

definition hook_teardown :: "hook \<Rightarrow> world \<Rightarrow> exn option \<times> world" where
  "hook_teardown h w =
     (case hook_body_teardown h (emit (TeardownBegin h) w) of
        (None, w') \<Rightarrow> (None, emit (TeardownEnd h) w')
      | (Some e, w') \<Rightarrow> (Some e, w'))"

text \<open>
  Startup: the hooks in order; \<open>entered\<close> collects those whose startup part completed,
  the latest first, which is the order of their teardown.
\<close>

fun startup :: "hook list \<Rightarrow> hook list \<Rightarrow> world \<Rightarrow> exn option \<times> hook list \<times> world" where
  "startup [] entered w = (None, entered, w)"
| "startup (h # hs) entered w =
     (case hook_startup h w of
        (Some e, w') \<Rightarrow> (Some e, entered, w')
      | (None, w') \<Rightarrow> startup hs (h # entered) w')"

fun cleanup :: "hook list \<Rightarrow> world \<Rightarrow> exn list \<times> world" where
  "cleanup [] w = ([], w)"
| "cleanup (h # hs) w =
     (case hook_teardown h w of
        (r, w') \<Rightarrow>
          (case cleanup hs w' of
             (es, w'') \<Rightarrow> ((case r of None \<Rightarrow> es | Some e \<Rightarrow> e # es), w'')))"

text \<open>What happens to the process while the server loop runs.\<close>

datatype stimulus =
    SetShutdownEvent
  | TimePasses
  | ExternalSignal
  | MainEnds outcome

text \<open>\<^verbatim>\<open>app["shutdown_event"].set()\<close>: the flag becomes true; setting a set event changes nothing.\<close>

definition event_set :: "world \<Rightarrow> world" where
  "event_set w =
     (case store (app w) ''shutdown_event'' of
        Some (VEvent b) \<Rightarrow> w\<lparr>app := set_item ''shutdown_event'' (VEvent True) (app w)\<rparr>
      | _ \<Rightarrow> w)"

definition main_ends :: "outcome \<Rightarrow> world \<Rightarrow> world" where
  "main_ends out w =
     (case main_task w of
        Some (Pending c) \<Rightarrow> w\<lparr>main_task := Some (Done (task_end_of out))\<rparr>
      | _ \<Rightarrow> w)"

text \<open>
  One stimulus. The flag returned says that a termination signal has reached the
  process, from outside or from the listener, so that the server loop stops.
\<close>

fun deliver :: "nat \<Rightarrow> stimulus \<Rightarrow> world \<Rightarrow> bool \<times> world" where
  "deliver pid SetShutdownEvent w = (False, listener_wake (event_set w))"
| "deliver pid TimePasses w = listener_tick pid w"
| "deliver pid ExternalSignal w = (True, w)"
| "deliver pid (MainEnds out) w = (False, main_ends out w)"

fun serve :: "nat \<Rightarrow> stimulus list \<Rightarrow> world \<Rightarrow> bool \<times> world" where
  "serve pid [] w = (False, w)"
| "serve pid (s # ss) w =
     (case deliver pid s w of
        (True, w') \<Rightarrow> (True, w')
      | (False, w') \<Rightarrow> serve pid ss w')"

text \<open>
  The outcome of a call of \<^verbatim>\<open>run\<close>: it returned, it raised, or the server loop was still
  running when the stimuli ended.
\<close>

datatype run_result = Returned | Raised exn | Serving

record run_out =
  result :: run_result
  app_after :: "application option"
  main_after :: "coroutine task option"
  listener_after :: "listener_pc task option"
  effects :: "effect list"

definition finish :: "run_result \<Rightarrow> world \<Rightarrow> run_out" where
  "finish r w = \<lparr>result = r, app_after = Some (app w), main_after = main_task w,
                 listener_after = listener_task w, effects = trace w\<rparr>"

fun raise_cleanup :: "exn list \<Rightarrow> run_result" where
  "raise_cleanup [] = Returned"
| "raise_cleanup [e] = Raised e"
| "raise_cleanup es = Raised (CleanupError es)"

definition run_app :: "nat \<Rightarrow> stimulus list \<Rightarrow> world \<Rightarrow> run_out" where
  "run_app pid ss w0 =
     (case startup (cleanup_ctx (app w0)) [] w0 of
        (Some e, entered, w1) \<Rightarrow>
          (case cleanup entered w1 of (es, w2) \<Rightarrow> finish (Raised e) w2)
      | (None, entered, w1) \<Rightarrow>
          (case serve pid ss (emit ServerAccepting w1) of
             (False, w2) \<Rightarrow> finish Serving w2
           | (True, w2) \<Rightarrow>
               (case cleanup entered (emit ServerStopping w2) of
                  (es, w3) \<Rightarrow> finish (raise_cleanup es) w3)))"

subsection \<open>run\<close>

text \<open>
  The environment of a call: the default route table \<^verbatim>\<open>routes\<close> imported from
  \<^verbatim>\<open>.server\<close>, the process id, the stimuli that arrive while the server runs, and
  whether the asyncio of the interpreter counts generator objects as coroutines (Python
  up to 3.11).
\<close>

record env =
  routes :: "route_item list"
  pid :: nat
  stimuli :: "stimulus list"
  legacy_generators :: bool

text \<open>
  \<^verbatim>\<open>app["main"].close()\<close>: the object stored under \<^verbatim>\<open>main\<close>, which has passed the
  guard, is closed.
\<close>

definition close_main :: "application \<Rightarrow> application" where
  "close_main a =
     (case store a ''main'' of
        Some (VPy (PyRoutine c)) \<Rightarrow>
          set_item ''main'' (VPy (PyRoutine (c\<lparr>coro_status := CORO_CLOSED\<rparr>))) a
      | _ \<Rightarrow> a)"

definition init_world :: "application \<Rightarrow> effect list \<Rightarrow> world" where
  "init_world a tr = \<lparr>app = a, main_task = None, listener_task = None, trace = tr\<rparr>"

text \<open>
  Lines 51 to 54 of \<^verbatim>\<open>run\<close>: the application is the caller's, or a new one with the
  error middleware, and \<^verbatim>\<open>main\<close> and \<^verbatim>\<open>path\<close> are stored in it.
\<close>

definition bootstrap :: "pyvalue \<Rightarrow> string \<Rightarrow> application option \<Rightarrow> application" where
  "bootstrap main path a_opt =
     (let a0 = (case a_opt of None \<Rightarrow> Application [error_middleware] | Some a \<Rightarrow> a);
          a1 = set_item ''main'' (VPy main) a0
      in set_item ''path'' (VStr path) a1)"

text \<open>
  \<^verbatim>\<open>run(main, path, app, **server_kwargs)\<close>. The keyword arguments are handed to the
  server loop unchanged and are left out.
\<close>

definition run :: "env \<Rightarrow> pyvalue \<Rightarrow> string \<Rightarrow> application option \<Rightarrow> run_out" where
  "run E main path a_opt =
     (if \<not> iscoroutine (legacy_generators E) main then
        \<lparr>result = Raised (ValueError (''A coroutine was expected, got '' @ py_str main)),
         app_after = a_opt, main_after = None, listener_after = None, effects = [BasicConfig]\<rparr>
      else
        (case add_routes (bootstrap main path a_opt) (routes E) of
           (Some (RuntimeError msg), a3) \<Rightarrow>
             finish (Raised (DuplicateRouteError (resources_of (routes E))))
               (init_world (close_main a3) [BasicConfig, CoroutineClosed])
         | (Some e, a3) \<Rightarrow> finish (Raised e) (init_world a3 [BasicConfig])
         | (None, a3) \<Rightarrow>
             run_app (pid E) (stimuli E)
               (init_world (a3\<lparr>cleanup_ctx := cleanup_ctx a3 @ [Run_main, Run_listener]\<rparr>)
                  [BasicConfig, SwaggerSetup])))"

subsection \<open>Notions used in the statements\<close>

text \<open>Sample inputs: a coroutine that was not started, one that was already awaited, a
  generator that was not started, a default route table of two routes, an environment
  with the asyncio of Python up to 3.11, and two applications of a caller, of which the
  first already serves one of the default routes.\<close>

definition sample_main :: coroutine where
  "sample_main = \<lparr>coro_kind = CoroutineType,
                   coro_str = ''<coroutine object main at 0x7f3a10>'',
                   coro_status = CORO_CREATED, on_cancel = Raises CancelledError\<rparr>"

definition awaited_main :: coroutine where
  "awaited_main = \<lparr>coro_kind = CoroutineType,
                    coro_str = ''<coroutine object main at 0x7f3a10>'',
                    coro_status = CORO_CLOSED, on_cancel = Raises CancelledError\<rparr>"

definition sample_generator :: coroutine where
  "sample_generator = \<lparr>coro_kind = GeneratorType,
                        coro_str = ''<generator object main at 0x7f3a10>'',
                        coro_status = CORO_CREATED, on_cancel = Raises CancelledError\<rparr>"

definition sample_routes :: "route_item list" where
  "sample_routes = [RouteDef ''GET'' ''/status'' ''status'', RouteDef ''GET'' ''/config'' ''config'']"

definition sample_env :: "stimulus list \<Rightarrow> env" where
  "sample_env ss = \<lparr>routes = sample_routes, pid = 4242, stimuli = ss,
                    legacy_generators = True\<rparr>"

definition sample_app :: application where
  "sample_app = \<lparr>middlewares = [''auth''], store = Map.empty,
                  router = [\<lparr>res_path = ''/status'', res_methods = [''GET'']\<rparr>],
                  cleanup_ctx = [User_ctx ''db'']\<rparr>"

definition plain_app :: application where
  "plain_app = \<lparr>middlewares = [''auth''], store = Map.empty,
                 router = [\<lparr>res_path = ''/metrics'', res_methods = [''GET'']\<rparr>],
                 cleanup_ctx = [User_ctx ''db'']\<rparr>"

text \<open>The hooks that are not of this module, and an application that holds no other.\<close>

fun is_user :: "hook \<Rightarrow> bool" where
  "is_user (User_ctx n) = True"
| "is_user h = False"

fun user_hooks_only :: "application option \<Rightarrow> bool" where
  "user_hooks_only None = True"
| "user_hooks_only (Some a) = list_all is_user (cleanup_ctx a)"

text \<open>The effects of \<^verbatim>\<open>shutdown_listener\<close>: the warning, the sleep, the signal.\<close>

fun listener_effect :: "effect \<Rightarrow> bool" where
  "listener_effect (LogWarning s) = True"
| "listener_effect (SleepStarted n) = True"
| "listener_effect (Kill p sg) = True"
| "listener_effect e = False"

text \<open>What a listener task can still do, from where it stands.\<close>

fun remaining :: "nat \<Rightarrow> listener_pc task option \<Rightarrow> effect list" where
  "remaining p (Some (Pending AtWait)) =
     [LogWarning ''Shutting down!'', SleepStarted 1, Kill p SIGTERM]"
| "remaining p (Some (Pending (AtSleep n))) = [Kill p SIGTERM]"
| "remaining p t = []"

text \<open>
  The steps of the two hooks of this module and the moment the server accepts
  connections, as an observer of the startup and teardown order sees them.
\<close>

fun lifecycle :: "effect \<Rightarrow> bool" where
  "lifecycle (StartupBegin h) = (\<not> is_user h)"
| "lifecycle (StartupEnd h) = (\<not> is_user h)"
| "lifecycle (TeardownBegin h) = (\<not> is_user h)"
| "lifecycle (TeardownEnd h) = (\<not> is_user h)"
| "lifecycle (TaskAwaited t) = True"
| "lifecycle ServerAccepting = True"
| "lifecycle e = False"

text \<open>
  The states of the listener: it waits on the unset event; it sleeps through its grace
  period of one time unit; and the states a listener task can be in at all, its
  coroutine raising nothing of its own.
\<close>

definition waiting :: "world \<Rightarrow> bool" where
  "waiting w = (listener_task w = Some (Pending AtWait) \<and>
                store (app w) ''shutdown_event'' = Some (VEvent False))"

definition sleeping :: "world \<Rightarrow> bool" where
  "sleeping w = (listener_task w = Some (Pending (AtSleep 1)))"

fun listener_ok :: "listener_pc task option \<Rightarrow> bool" where
  "listener_ok (Some (Pending pc)) = True"
| "listener_ok (Some (Done T_Result)) = True"
| "listener_ok t = False"

text \<open>
  A state in which setting the event changes nothing any more: the event, if there is
  one, is set, and the listener has left its wait.
\<close>

definition settled :: "world \<Rightarrow> bool" where
  "settled w =
     (case store (app w) ''shutdown_event'' of
        Some (VEvent b) \<Rightarrow> b \<and> listener_task w \<noteq> Some (Pending AtWait)
      | _ \<Rightarrow> True)"

text \<open>What hooks that are not of this module add to the trace.\<close>

definition user_startups :: "hook list \<Rightarrow> effect list" where
  "user_startups us = concat (map (\<lambda>h. [StartupBegin h, StartupEnd h]) us)"

definition user_teardowns :: "hook list \<Rightarrow> effect list" where
  "user_teardowns us = concat (map (\<lambda>h. [TeardownBegin h, TeardownEnd h]) us)"

text \<open>The (method, path) identities that a router serves.\<close>

definition identities :: "resource list \<Rightarrow> (string \<times> string) list" where
  "identities rs = concat (map (\<lambda>r. map (\<lambda>m. (m, res_path r)) (res_methods r)) rs)"

text \<open>
  Two states of an application that differ at most in the entry \<^verbatim>\<open>shutdown_event\<close>.
\<close>

definition unchanged_but_event :: "application \<Rightarrow> application \<Rightarrow> bool" where
  "unchanged_but_event a a' =
     (middlewares a' = middlewares a \<and> router a' = router a \<and> cleanup_ctx a' = cleanup_ctx a \<and>
      (\<forall>k. k \<noteq> ''shutdown_event'' \<longrightarrow> store a' k = store a k))"

section \<open>What the hooks and the server loop leave unchanged\<close>

lemmas step_defs = emit_def set_item_def run_main_startup_def run_main_teardown_def
  run_listener_startup_def run_listener_teardown_def hook_startup_def hook_teardown_def
  listener_wake_def listener_tick_def event_set_def event_is_set_def main_ends_def

lemma ube_refl: "unchanged_but_event a a"
  by (simp add: unchanged_but_event_def)

lemma ube_trans: "unchanged_but_event a b \<Longrightarrow> unchanged_but_event b c \<Longrightarrow> unchanged_but_event a c"
  by (simp add: unchanged_but_event_def)

lemma hook_startup_frame: "unchanged_but_event (app w) (app (snd (hook_startup h w)))"
  by (cases h)
     (auto simp: unchanged_but_event_def step_defs Let_def
           split: option.splits entry.splits pyvalue.splits)

lemma hook_teardown_frame: "unchanged_but_event (app w) (app (snd (hook_teardown h w)))"
  by (cases h)
     (auto simp: unchanged_but_event_def step_defs Let_def
           split: option.splits entry.splits pyvalue.splits)

lemma deliver_frame: "unchanged_but_event (app w) (app (snd (deliver p s w)))"
  by (cases s)
     (auto simp: unchanged_but_event_def step_defs Let_def
           split: option.splits entry.splits pyvalue.splits task.splits listener_pc.splits)

lemma startup_frame:
  "unchanged_but_event (app w) (app (snd (snd (startup hs ent w))))"
proof (induction hs arbitrary: ent w)
  case Nil
  show ?case by (simp add: ube_refl)
next
  case (Cons h hs)
  show ?case
  proof (cases "hook_startup h w")
    case (Pair r w')
    have f: "unchanged_but_event (app w) (app w')"
      using hook_startup_frame [of w h] Pair by simp
    show ?thesis
    proof (cases r)
      case None
      with Pair f Cons.IH [of w' "h # ent"] show ?thesis
        by (auto intro: ube_trans)
    next
      case (Some e)
      with Pair f show ?thesis by simp
    qed
  qed
qed

lemma cleanup_frame: "unchanged_but_event (app w) (app (snd (cleanup hs w)))"
proof (induction hs arbitrary: w)
  case Nil
  show ?case by (simp add: ube_refl)
next
  case (Cons h hs)
  obtain r w' where hw: "hook_teardown h w = (r, w')" by (cases "hook_teardown h w")
  obtain es w'' where cw: "cleanup hs w' = (es, w'')" by (cases "cleanup hs w'")
  have "unchanged_but_event (app w) (app w')"
    using hook_teardown_frame [of w h] hw by simp
  moreover have "unchanged_but_event (app w') (app w'')"
    using Cons.IH [of w'] cw by simp
  ultimately show ?case using hw cw by (auto intro: ube_trans)
qed

lemma serve_frame: "unchanged_but_event (app w) (app (snd (serve p ss w)))"
proof (induction ss arbitrary: w)
  case Nil
  show ?case by (simp add: ube_refl)
next
  case (Cons s ss)
  obtain b w' where d: "deliver p s w = (b, w')" by (cases "deliver p s w")
  have f: "unchanged_but_event (app w) (app w')"
    using deliver_frame [of w p s] d by simp
  show ?case
  proof (cases b)
    case True
    with d f show ?thesis by simp
  next
    case False
    with d f Cons.IH [of w'] show ?thesis by (auto intro: ube_trans)
  qed
qed

lemma run_app_frame:
  "\<exists>a'. app_after (run_app p ss w) = Some a' \<and> unchanged_but_event (app w) a'"
proof -
  obtain r ent w1 where st: "startup (cleanup_ctx (app w)) [] w = (r, ent, w1)"
    by (cases "startup (cleanup_ctx (app w)) [] w") auto
  have f1: "unchanged_but_event (app w) (app w1)"
    using startup_frame [of w "cleanup_ctx (app w)" "[]"] st by simp
  show ?thesis
  proof (cases r)
    case (Some e)
    obtain es w2 where c: "cleanup ent w1 = (es, w2)" by (cases "cleanup ent w1")
    have "unchanged_but_event (app w1) (app w2)" using cleanup_frame [of w1 ent] c by simp
    with f1 have "unchanged_but_event (app w) (app w2)" by (rule ube_trans)
    with st Some c show ?thesis by (simp add: run_app_def finish_def)
  next
    case None
    obtain b w2 where sv: "serve p ss (emit ServerAccepting w1) = (b, w2)"
      by (cases "serve p ss (emit ServerAccepting w1)")
    have "unchanged_but_event (app (emit ServerAccepting w1)) (app w2)"
      using serve_frame [of "emit ServerAccepting w1" p ss] sv by simp
    then have f2: "unchanged_but_event (app w) (app w2)"
      using f1 by (auto simp: emit_def intro: ube_trans)
    show ?thesis
    proof (cases b)
      case False
      with st None sv f2 show ?thesis by (simp add: run_app_def finish_def)
    next
      case True
      obtain es w3 where c: "cleanup ent (emit ServerStopping w2) = (es, w3)"
        by (cases "cleanup ent (emit ServerStopping w2)")
      have "unchanged_but_event (app (emit ServerStopping w2)) (app w3)"
        using cleanup_frame [of "emit ServerStopping w2" ent] c by simp
      then have "unchanged_but_event (app w) (app w3)"
        using f2 by (auto simp: emit_def intro: ube_trans)
      with st None sv True c show ?thesis by (simp add: run_app_def finish_def)
    qed
  qed
qed

section \<open>The route merge and the three ways of run\<close>

lemma add_routes_frame:
  "store (snd (add_routes a rs)) = store a \<and> middlewares (snd (add_routes a rs)) = middlewares a
   \<and> cleanup_ctx (snd (add_routes a rs)) = cleanup_ctx a"
  by (induction a rs rule: add_routes.induct) (auto split: sum.splits)

lemma bootstrap_store:
  "store (bootstrap v path a_opt) ''main'' = Some (VPy v) \<and>
   store (bootstrap v path a_opt) ''path'' = Some (VStr path)"
  by (simp add: bootstrap_def set_item_def Let_def)

lemma bootstrap_supplied:
  "middlewares (bootstrap v path (Some a)) = middlewares a \<and>
   cleanup_ctx (bootstrap v path (Some a)) = cleanup_ctx a \<and>
   router (bootstrap v path (Some a)) = router a"
  by (simp add: bootstrap_def set_item_def Let_def)

lemma bootstrap_fresh:
  "middlewares (bootstrap v path None) = [error_middleware] \<and>
   cleanup_ctx (bootstrap v path None) = [] \<and> router (bootstrap v path None) = []"
  by (simp add: bootstrap_def set_item_def Let_def Application_def)

text \<open>The three ways in which \<^verbatim>\<open>run\<close> goes on after the check of \<^verbatim>\<open>main\<close>.\<close>

lemma run_conflict:
  assumes "iscoroutine (legacy_generators E) v"
    and "add_routes (bootstrap v path a_opt) (routes E) = (Some (RuntimeError msg), a3)"
  shows "run E v path a_opt =
           finish (Raised (DuplicateRouteError (resources_of (routes E))))
             (init_world (close_main a3) [BasicConfig, CoroutineClosed])"
  using assms by (simp add: run_def)

lemma run_merged:
  assumes "iscoroutine (legacy_generators E) v"
    and "add_routes (bootstrap v path a_opt) (routes E) = (None, a3)"
  shows "run E v path a_opt =
           run_app (pid E) (stimuli E)
             (init_world (a3\<lparr>cleanup_ctx := cleanup_ctx a3 @ [Run_main, Run_listener]\<rparr>)
                [BasicConfig, SwaggerSetup])"
  using assms by (simp add: run_def)

lemma add_route_error: "add_route r m p = Inl e \<Longrightarrow> \<exists>msg. e = RuntimeError msg"
  by (cases r) (auto simp: Let_def split: if_splits)

lemma add_routes_error: "add_routes a rs = (Some e, a') \<Longrightarrow> \<exists>msg. e = RuntimeError msg"
  by (induction a rs arbitrary: a' rule: add_routes.induct)
     (auto split: sum.splits dest: add_route_error)

section \<open>The check of the entry point\<close>

lemmas sample_defs = sample_main_def awaited_main_def sample_generator_def sample_routes_def
  sample_env_def sample_app_def plain_app_def

text \<open>
  Claim C1, as amended. For every value \<open>v\<close> that the guard of \<^verbatim>\<open>run\<close>,
  \<^verbatim>\<open>asyncio.coroutines.iscoroutine\<close>, rejects (every value that is neither a coroutine
  object nor, with the asyncio of Python up to 3.11, a generator object),
  \<^verbatim>\<open>run(v, path)\<close> raises the error for an invalid entry point, which in the source is
  a \<^verbatim>\<open>ValueError\<close> (the specification calls it \<^verbatim>\<open>InvalidEntrypointError\<close>), and the
  application container is never created: no application object is built, and an
  application that the caller passed is left as it was, so that nothing is stored under
  \<^verbatim>\<open>main\<close>, \<^verbatim>\<open>path\<close> or \<^verbatim>\<open>shutdown_event\<close>. The only effect is the configuration of
  the logging.
\<close>

theorem run_rejects_non_coroutine:
  "\<not> iscoroutine (legacy_generators E) v \<Longrightarrow>
     result (run E v path a_opt) =
       Raised (ValueError (''A coroutine was expected, got '' @ py_str v)) \<and>
     app_after (run E v path a_opt) = a_opt \<and>
     app_after (run E v path None) = None \<and>
     effects (run E v path a_opt) = [BasicConfig]"
  by (simp add: run_def)

text \<open>
  A plain function is rejected by either asyncio; a generator object by that of Python
  3.12 and later.
\<close>

theorem run_rejects_non_coroutine_witness:
  "\<not> iscoroutine (legacy_generators (sample_env [])) (PyObject ''<function main>'') \<and>
   result (run (sample_env []) (PyObject ''<function main>'') ''/etc/app.json'' None) =
     Raised (ValueError ''A coroutine was expected, got <function main>'') \<and>
   app_after (run (sample_env []) (PyObject ''<function main>'') ''/etc/app.json'' None) = None \<and>
   \<not> iscoroutine (legacy_generators ((sample_env [])\<lparr>legacy_generators := False\<rparr>))
       (PyRoutine sample_generator) \<and>
   result (run ((sample_env [])\<lparr>legacy_generators := False\<rparr>) (PyRoutine sample_generator)
             ''/etc/app.json'' None) =
     Raised (ValueError ''A coroutine was expected, got <generator object main at 0x7f3a10>'') \<and>
   app_after (run ((sample_env [])\<lparr>legacy_generators := False\<rparr>) (PyRoutine sample_generator)
                ''/etc/app.json'' None) = None"
proof -
  have h1: "\<not> iscoroutine (legacy_generators (sample_env [])) (PyObject ''<function main>'')"
    by simp
  have h2: "\<not> iscoroutine (legacy_generators ((sample_env [])\<lparr>legacy_generators := False\<rparr>))
       (PyRoutine sample_generator)"
    by (simp add: sample_generator_def)
  have s: "py_str (PyRoutine sample_generator) = ''<generator object main at 0x7f3a10>''"
    by (simp add: sample_generator_def)
  from run_rejects_non_coroutine [OF h1, of "''/etc/app.json''" None]
    run_rejects_non_coroutine [OF h2, of "''/etc/app.json''" None] h1 h2 s
  show ?thesis by simp
qed

text \<open>
  The claim as the specification has it, for every value that is not a coroutine, fails at
  a generator object with the asyncio of Python up to 3.11: the guard lets it through, the
  application is built, the task of \<^verbatim>\<open>main\<close> is created, and \<^verbatim>\<open>run\<close> returns when the
  server loop has stopped.
\<close>

theorem generator_accepted_counterexample:
  "coro_kind sample_generator = GeneratorType \<and>
   legacy_generators (sample_env [ExternalSignal]) \<and>
   result (run (sample_env [ExternalSignal]) (PyRoutine sample_generator) ''/etc/app.json'' None) =
     Returned \<and>
   app_after (run (sample_env [ExternalSignal]) (PyRoutine sample_generator) ''/etc/app.json'' None)
     \<noteq> None \<and>
   TaskCreated MainTask \<in>
     set (effects (run (sample_env [ExternalSignal]) (PyRoutine sample_generator)
                     ''/etc/app.json'' None))"
  by (simp add: sample_defs run_def bootstrap_def Application_def set_item_def Let_def
        run_app_def init_world_def step_defs create_task_def finish_def)

section \<open>Route conflicts\<close>

lemma iscoroutine_cases: "iscoroutine gen v \<Longrightarrow> \<exists>c. v = PyRoutine c"
  by (cases v) auto

lemma close_main_frame:
  "middlewares (close_main a) = middlewares a \<and> cleanup_ctx (close_main a) = cleanup_ctx a \<and>
   router (close_main a) = router a \<and> (k \<noteq> ''main'' \<longrightarrow> store (close_main a) k = store a k)"
  by (simp add: close_main_def set_item_def split: option.splits entry.splits pyvalue.splits)

lemma close_main_closes:
  "store a ''main'' = Some (VPy (PyRoutine c)) \<Longrightarrow>
   store (close_main a) ''main'' = Some (VPy (PyRoutine (c\<lparr>coro_status := CORO_CLOSED\<rparr>)))"
  by (simp add: close_main_def set_item_def)

lemma resources_of_iff:
  "(m, p) \<in> set (resources_of rs) \<longleftrightarrow> (\<exists>h. RouteDef m p h \<in> set rs)"
  by (induction rs rule: resources_of.induct) auto

text \<open>
  Claim C2, as amended. Whenever the merge of the default route table into the
  application is refused by the router with its \<^verbatim>\<open>RuntimeError\<close>, \<^verbatim>\<open>run\<close> fails with
  a \<^verbatim>\<open>DuplicateRouteError\<close> whose message lists the (method, path) pair of every
  \<^verbatim>\<open>RouteDef\<close> of the default table, and nothing else. Every pair on which a caller's
  route and a default route collide is therefore in the message, and so is every default
  route that collides with nothing: the handler of the \<^verbatim>\<open>RuntimeError\<close> does not know
  which registration was refused.
\<close>

theorem duplicate_route_error_lists_defaults:
  assumes "iscoroutine (legacy_generators E) v"
    and "fst (add_routes (bootstrap v path a_opt) (routes E)) = Some (RuntimeError msg)"
  shows "result (run E v path a_opt) = Raised (DuplicateRouteError (resources_of (routes E))) \<and>
         (\<forall>m p. (m, p) \<in> set (resources_of (routes E)) \<longleftrightarrow> (\<exists>h. RouteDef m p h \<in> set (routes E))) \<and>
         (\<forall>a m p h. a_opt = Some a \<and> (m, p) \<in> set (identities (router a)) \<and>
                     RouteDef m p h \<in> set (routes E) \<longrightarrow>
                     (m, p) \<in> set (resources_of (routes E)))"
proof -
  obtain a3 where "add_routes (bootstrap v path a_opt) (routes E) = (Some (RuntimeError msg), a3)"
    using assms(2) by (cases "add_routes (bootstrap v path a_opt) (routes E)") auto
  then have "result (run E v path a_opt) = Raised (DuplicateRouteError (resources_of (routes E)))"
    using assms(1) by (simp add: run_conflict finish_def)
  then show ?thesis by (auto simp: resources_of_iff)
qed

text \<open>
  The caller's application serves \<^verbatim>\<open>GET /status\<close>; the default table has
  \<^verbatim>\<open>GET /status\<close> and \<^verbatim>\<open>GET /config\<close>.
\<close>

theorem duplicate_route_error_lists_defaults_witness:
  "iscoroutine True (PyRoutine sample_main) \<and>
   fst (add_routes (bootstrap (PyRoutine sample_main) ''/etc/app.json'' (Some sample_app))
          (routes (sample_env []))) =
     Some (RuntimeError ''Added route will never be executed, method is already registered'') \<and>
   result (run (sample_env []) (PyRoutine sample_main) ''/etc/app.json'' (Some sample_app)) =
     Raised (DuplicateRouteError [(''GET'', ''/status''), (''GET'', ''/config'')])"
proof -
  have h1: "iscoroutine gen (PyRoutine sample_main)" for gen
    by (simp add: sample_main_def)
  have h2: "fst (add_routes (bootstrap (PyRoutine sample_main) ''/etc/app.json'' (Some sample_app))
          (routes (sample_env []))) =
     Some (RuntimeError ''Added route will never be executed, method is already registered'')"
    by (simp add: sample_defs bootstrap_def set_item_def Let_def)
  show ?thesis
    using duplicate_route_error_lists_defaults [OF h1 h2] h1 h2
    by (simp add: sample_env_def sample_routes_def)
qed

text \<open>
  The claim as the specification has it (the message names the conflicting pairs and no
  other) fails there: \<^verbatim>\<open>GET /config\<close> is in the message and the caller's application
  does not serve it.
\<close>

theorem duplicate_route_message_counterexample:
  "(''GET'', ''/status'') \<in> set (identities (router sample_app)) \<and>
   (''GET'', ''/config'') \<notin> set (identities (router sample_app)) \<and>
   result (run (sample_env []) (PyRoutine sample_main) ''/etc/app.json'' (Some sample_app)) =
     Raised (DuplicateRouteError [(''GET'', ''/status''), (''GET'', ''/config'')])"
  by (simp add: sample_defs identities_def run_def bootstrap_def set_item_def Let_def finish_def)

text \<open>
  Claim C8. Whenever the route merge fails and \<^verbatim>\<open>run\<close> raises the
  \<^verbatim>\<open>DuplicateRouteError\<close>, the coroutine \<^verbatim>\<open>main\<close> has been closed, and it was never
  scheduled: the only effects are the configuration of the logging and the closing, no
  task exists and no hook was entered.
\<close>

theorem duplicate_route_closes_main:
  assumes "iscoroutine (legacy_generators E) v"
    and "fst (add_routes (bootstrap v path a_opt) (routes E)) = Some (RuntimeError msg)"
  shows "(\<exists>rs. result (run E v path a_opt) = Raised (DuplicateRouteError rs)) \<and>
         (\<exists>a c. v = PyRoutine c \<and> app_after (run E v path a_opt) = Some a \<and>
                 store a ''main'' = Some (VPy (PyRoutine (c\<lparr>coro_status := CORO_CLOSED\<rparr>)))) \<and>
         effects (run E v path a_opt) = [BasicConfig, CoroutineClosed] \<and>
         main_after (run E v path a_opt) = None \<and>
         listener_after (run E v path a_opt) = None"
proof -
  obtain c where c: "v = PyRoutine c" using assms(1) iscoroutine_cases by blast
  obtain a3 where a3: "add_routes (bootstrap v path a_opt) (routes E) = (Some (RuntimeError msg), a3)"
    using assms(2) by (cases "add_routes (bootstrap v path a_opt) (routes E)") auto
  have "store a3 ''main'' = Some (VPy (PyRoutine c))"
    using add_routes_frame [of "bootstrap v path a_opt" "routes E"] a3 bootstrap_store [of v path a_opt] c
    by simp
  then have "store (close_main a3) ''main'' = Some (VPy (PyRoutine (c\<lparr>coro_status := CORO_CLOSED\<rparr>)))"
    by (rule close_main_closes)
  then show ?thesis
    using c run_conflict [OF assms(1) a3] by (simp add: finish_def init_world_def)
qed

theorem duplicate_route_closes_main_witness:
  "iscoroutine True (PyRoutine sample_main) \<and>
   fst (add_routes (bootstrap (PyRoutine sample_main) ''/etc/app.json'' (Some sample_app))
          (routes (sample_env [ExternalSignal]))) =
     Some (RuntimeError ''Added route will never be executed, method is already registered'') \<and>
   effects (run (sample_env [ExternalSignal]) (PyRoutine sample_main) ''/etc/app.json'' (Some sample_app)) =
     [BasicConfig, CoroutineClosed] \<and>
   main_after (run (sample_env [ExternalSignal]) (PyRoutine sample_main) ''/etc/app.json'' (Some sample_app)) = None"
proof -
  have h1: "iscoroutine gen (PyRoutine sample_main)" for gen
    by (simp add: sample_main_def)
  have h2: "fst (add_routes (bootstrap (PyRoutine sample_main) ''/etc/app.json'' (Some sample_app))
          (routes (sample_env [ExternalSignal]))) =
     Some (RuntimeError ''Added route will never be executed, method is already registered'')"
    by (simp add: sample_defs bootstrap_def set_item_def Let_def)
  show ?thesis
    using duplicate_route_closes_main [OF h1 h2] h1 h2 by simp
qed

text \<open>
  Claim C9. When \<^verbatim>\<open>run\<close> raises a \<^verbatim>\<open>DuplicateRouteError\<close>, the application holds the
  entries \<^verbatim>\<open>main\<close> and \<^verbatim>\<open>path\<close>: they were stored before the merge. With an
  application of the caller it is that application which holds them, its middlewares and
  its other entries being as they were.
\<close>

theorem duplicate_route_error_not_atomic:
  assumes "result (run E v path a_opt) = Raised (DuplicateRouteError rs)"
  shows "\<exists>a u. app_after (run E v path a_opt) = Some a \<and>
               store a ''main'' = Some (VPy (PyRoutine u)) \<and>
               store a ''path'' = Some (VStr path) \<and>
               (\<forall>a0. a_opt = Some a0 \<longrightarrow> middlewares a = middlewares a0 \<and>
                  (\<forall>k. k \<noteq> ''main'' \<and> k \<noteq> ''path'' \<and> k \<noteq> ''shutdown_event'' \<longrightarrow>
                       store a k = store a0 k))"
proof -
  have co: "iscoroutine (legacy_generators E) v" using assms by (auto simp: run_def split: if_splits)
  then obtain c where c: "v = PyRoutine c" using iscoroutine_cases by blast
  let ?b = "bootstrap v path a_opt"
  obtain r a3 where ar: "add_routes ?b (routes E) = (r, a3)"
    by (cases "add_routes ?b (routes E)")
  have fr: "store a3 = store ?b \<and> middlewares a3 = middlewares ?b"
    using add_routes_frame [of ?b "routes E"] ar by simp
  have bs: "store ?b ''main'' = Some (VPy (PyRoutine c)) \<and> store ?b ''path'' = Some (VStr path)"
    using bootstrap_store [of v path a_opt] c by simp
  have sup: "\<forall>a0. a_opt = Some a0 \<longrightarrow> middlewares ?b = middlewares a0 \<and>
      (\<forall>k. k \<noteq> ''main'' \<and> k \<noteq> ''path'' \<longrightarrow> store ?b k = store a0 k)"
    by (simp add: bootstrap_def set_item_def Let_def)
  show ?thesis
  proof (cases r)
    case None
    let ?w = "init_world (a3\<lparr>cleanup_ctx := cleanup_ctx a3 @ [Run_main, Run_listener]\<rparr>)
                [BasicConfig, SwaggerSetup]"
    have ru: "run E v path a_opt = run_app (pid E) (stimuli E) ?w"
      using run_merged [OF co] ar None by simp
    obtain a' where a': "app_after (run_app (pid E) (stimuli E) ?w) = Some a'"
      and u: "unchanged_but_event (app ?w) a'"
      using run_app_frame [of "pid E" "stimuli E" ?w] by blast
    from u have "middlewares a' = middlewares a3 \<and>
        (\<forall>k. k \<noteq> ''shutdown_event'' \<longrightarrow> store a' k = store a3 k)"
      by (simp add: unchanged_but_event_def init_world_def)
    with fr bs sup a' ru show ?thesis by auto
  next
    case (Some e)
    then obtain msg where e: "e = RuntimeError msg" using add_routes_error ar by blast
    have ru: "run E v path a_opt =
           finish (Raised (DuplicateRouteError (resources_of (routes E))))
             (init_world (close_main a3) [BasicConfig, CoroutineClosed])"
      using run_conflict [OF co] ar Some e by simp
    have "store (close_main a3) ''main'' = Some (VPy (PyRoutine (c\<lparr>coro_status := CORO_CLOSED\<rparr>)))"
      using close_main_closes fr bs by simp
    moreover have "middlewares (close_main a3) = middlewares a3 \<and>
        (\<forall>k. k \<noteq> ''main'' \<longrightarrow> store (close_main a3) k = store a3 k)"
      using close_main_frame by blast
    ultimately show ?thesis using ru fr bs sup
      by (auto simp: finish_def init_world_def)
  qed
qed

text \<open>
  The caller's application has neither entry before the call and both after it.
\<close>

theorem duplicate_route_error_not_atomic_witness:
  "store sample_app ''main'' = None \<and> store sample_app ''path'' = None \<and>
   result (run (sample_env []) (PyRoutine sample_main) ''/etc/app.json'' (Some sample_app)) =
     Raised (DuplicateRouteError [(''GET'', ''/status''), (''GET'', ''/config'')]) \<and>
   (\<exists>a u. app_after (run (sample_env []) (PyRoutine sample_main) ''/etc/app.json'' (Some sample_app)) = Some a \<and>
       store a ''main'' = Some (VPy (PyRoutine u)) \<and> store a ''path'' = Some (VStr ''/etc/app.json''))"
proof -
  have h: "result (run (sample_env []) (PyRoutine sample_main) ''/etc/app.json'' (Some sample_app)) =
     Raised (DuplicateRouteError [(''GET'', ''/status''), (''GET'', ''/config'')])"
    by (simp add: sample_defs run_def bootstrap_def set_item_def Let_def finish_def)
  have e: "store sample_app ''main'' = None \<and> store sample_app ''path'' = None"
    by (simp add: sample_app_def)
  from duplicate_route_error_not_atomic [OF h] h e show ?thesis by blast
qed

text \<open>
  Claim C10. \<^verbatim>\<open>run\<close> leaves the list of middlewares of an application that the caller
  supplies as it is, whatever else happens: the error middleware is not installed on it.
  Only the application that \<^verbatim>\<open>run\<close> creates itself, when none is given, has the error
  middleware, and nothing else.
\<close>

theorem run_keeps_supplied_middlewares:
  "(\<exists>a'. app_after (run E v path (Some a)) = Some a' \<and> middlewares a' = middlewares a) \<and>
   (iscoroutine (legacy_generators E) u \<longrightarrow>
      (\<exists>a'. app_after (run E u path None) = Some a' \<and> middlewares a' = [error_middleware]))"
proof -
  have gen: "iscoroutine (legacy_generators E) v' \<Longrightarrow> \<exists>a'. app_after (run E v' path a_opt) = Some a' \<and>
      middlewares a' = middlewares (bootstrap v' path a_opt)" for v' a_opt
  proof -
    assume co: "iscoroutine (legacy_generators E) v'"
    let ?b = "bootstrap v' path a_opt"
    obtain r a3 where ar: "add_routes ?b (routes E) = (r, a3)"
      by (cases "add_routes ?b (routes E)")
    have fr: "middlewares a3 = middlewares ?b"
      using add_routes_frame [of ?b "routes E"] ar by simp
    show ?thesis
    proof (cases r)
      case None
      let ?w = "init_world (a3\<lparr>cleanup_ctx := cleanup_ctx a3 @ [Run_main, Run_listener]\<rparr>)
                  [BasicConfig, SwaggerSetup]"
      have ru: "run E v' path a_opt = run_app (pid E) (stimuli E) ?w"
        using run_merged [OF co] ar None by simp
      obtain a' where a': "app_after (run_app (pid E) (stimuli E) ?w) = Some a'"
        and u: "unchanged_but_event (app ?w) a'"
        using run_app_frame [of "pid E" "stimuli E" ?w] by blast
      from u have "middlewares a' = middlewares a3"
        by (simp add: unchanged_but_event_def init_world_def)
      with fr a' ru show ?thesis by simp
    next
      case (Some e)
      then obtain msg where e: "e = RuntimeError msg" using add_routes_error ar by blast
      have ru: "run E v' path a_opt =
             finish (Raised (DuplicateRouteError (resources_of (routes E))))
               (init_world (close_main a3) [BasicConfig, CoroutineClosed])"
        using run_conflict [OF co] ar Some e by simp
      have "middlewares (close_main a3) = middlewares a3" using close_main_frame by blast
      with ru fr show ?thesis by (simp add: finish_def init_world_def)
    qed
  qed
  have one: "\<exists>a'. app_after (run E v path (Some a)) = Some a' \<and> middlewares a' = middlewares a"
  proof (cases "iscoroutine (legacy_generators E) v")
    case True
    from gen [OF True, of "Some a"] show ?thesis by (simp add: bootstrap_supplied)
  next
    case False
    then show ?thesis by (simp add: run_def)
  qed
  have two: "iscoroutine (legacy_generators E) u \<longrightarrow>
      (\<exists>a'. app_after (run E u path None) = Some a' \<and> middlewares a' = [error_middleware])"
    using gen [of u None] by (simp add: bootstrap_fresh)
  from one two show ?thesis by blast
qed

theorem run_keeps_supplied_middlewares_witness:
  "(\<exists>a'. app_after (run (sample_env [ExternalSignal]) (PyRoutine sample_main) ''/etc/app.json''
                 (Some plain_app)) = Some a' \<and> middlewares a' = [''auth'']) \<and>
   error_middleware \<notin> set (middlewares plain_app) \<and>
   iscoroutine True (PyRoutine sample_main) \<and>
   (\<exists>a'. app_after (run (sample_env [ExternalSignal]) (PyRoutine sample_main) ''/etc/app.json''
                 None) = Some a' \<and> middlewares a' = [error_middleware])"
proof -
  have m: "middlewares plain_app = [''auth'']" by (simp add: plain_app_def)
  have nm: "error_middleware \<notin> set (middlewares plain_app)"
    by (simp add: plain_app_def error_middleware_def)
  have h: "iscoroutine gen (PyRoutine sample_main)" for gen
    by (simp add: sample_main_def)
  note t = run_keeps_supplied_middlewares
    [where E = "sample_env [ExternalSignal]" and v = "PyRoutine sample_main"
       and path = "''/etc/app.json''" and a = plain_app and u = "PyRoutine sample_main",
     unfolded m]
  from t h nm show ?thesis by blast
qed

section \<open>The listener while the server runs\<close>

lemma serve_append:
  "serve p (xs @ ys) w =
     (case serve p xs w of (True, w') \<Rightarrow> (True, w') | (False, w') \<Rightarrow> serve p ys w')"
proof (induction xs arbitrary: w)
  case Nil
  show ?case by simp
next
  case (Cons x xs)
  obtain b w' where d: "deliver p x w = (b, w')" by (cases "deliver p x w")
  show ?case using d Cons.IH [of w'] by (cases b) simp_all
qed

lemma startup_append:
  "startup (xs @ ys) ent w =
     (case startup xs ent w of
        (Some e, ent', w') \<Rightarrow> (Some e, ent', w')
      | (None, ent', w') \<Rightarrow> startup ys ent' w')"
proof (induction xs arbitrary: ent w)
  case Nil
  show ?case by simp
next
  case (Cons x xs)
  obtain r w' where d: "hook_startup x w = (r, w')" by (cases "hook_startup x w")
  show ?case using d Cons.IH [of "x # ent" w'] by (cases r) simp_all
qed

text \<open>What a stimulus adds to the trace is what the listener had left to do and did.\<close>

lemma deliver_listener:
  "\<exists>tr. trace (snd (deliver p s w)) = trace w @ tr \<and>
        tr @ remaining p (listener_task (snd (deliver p s w))) = remaining p (listener_task w)"
proof (cases s)
  case SetShutdownEvent
  then show ?thesis
    by (auto simp: step_defs split: option.splits entry.splits)
next
  case TimePasses
  then show ?thesis
    by (auto simp: step_defs split: option.splits task.splits listener_pc.splits)
next
  case ExternalSignal
  then show ?thesis by simp
next
  case (MainEnds out)
  then show ?thesis
    by (auto simp: step_defs split: option.splits task.splits)
qed

lemma serve_listener:
  "\<exists>tr. trace (snd (serve p ss w)) = trace w @ tr \<and>
        tr @ remaining p (listener_task (snd (serve p ss w))) = remaining p (listener_task w)"
proof (induction ss arbitrary: w)
  case Nil
  show ?case by simp
next
  case (Cons s ss)
  obtain b w' where d: "deliver p s w = (b, w')" by (cases "deliver p s w")
  obtain t1 where t1: "trace w' = trace w @ t1"
    "t1 @ remaining p (listener_task w') = remaining p (listener_task w)"
    using deliver_listener [of p s w] d by auto
  show ?case
  proof (cases b)
    case True
    with d t1 show ?thesis by simp
  next
    case False
    obtain t2 where t2: "trace (snd (serve p ss w')) = trace w' @ t2"
      "t2 @ remaining p (listener_task (snd (serve p ss w'))) = remaining p (listener_task w')"
      using Cons.IH [of w'] by auto
    have "trace (snd (serve p ss w')) = trace w @ (t1 @ t2)" using t1 t2 by simp
    moreover have "(t1 @ t2) @ remaining p (listener_task (snd (serve p ss w'))) =
        remaining p (listener_task w)" using t1 t2 by simp
    ultimately show ?thesis using d False by auto
  qed
qed

text \<open>The hooks add no effect of the listener to the trace.\<close>

lemma hook_startup_quiet:
  "filter listener_effect (trace (snd (hook_startup h w))) = filter listener_effect (trace w)"
  by (cases h)
     (auto simp: step_defs Let_def split: option.splits entry.splits pyvalue.splits)

lemma hook_teardown_quiet:
  "filter listener_effect (trace (snd (hook_teardown h w))) = filter listener_effect (trace w)"
  by (cases h)
     (auto simp: step_defs Let_def split: option.splits entry.splits pyvalue.splits)

lemma startup_quiet:
  "filter listener_effect (trace (snd (snd (startup hs ent w)))) = filter listener_effect (trace w)"
proof (induction hs arbitrary: ent w)
  case Nil
  show ?case by simp
next
  case (Cons h hs)
  obtain r w' where d: "hook_startup h w = (r, w')" by (cases "hook_startup h w")
  have "filter listener_effect (trace w') = filter listener_effect (trace w)"
    using hook_startup_quiet [of h w] d by simp
  then show ?case using d Cons.IH [of "h # ent" w'] by (cases r) simp_all
qed

lemma cleanup_quiet:
  "filter listener_effect (trace (snd (cleanup hs w))) = filter listener_effect (trace w)"
proof (induction hs arbitrary: w)
  case Nil
  show ?case by simp
next
  case (Cons h hs)
  obtain r w' where d: "hook_teardown h w = (r, w')" by (cases "hook_teardown h w")
  obtain es w'' where c: "cleanup hs w' = (es, w'')" by (cases "cleanup hs w'")
  have "filter listener_effect (trace w') = filter listener_effect (trace w)"
    using hook_teardown_quiet [of h w] d by simp
  then show ?case using d c Cons.IH [of w'] by simp
qed

lemma startup_last_listener:
  assumes "startup (hs @ [Run_listener]) ent w = (None, ent', w')"
  shows "waiting w'"
proof -
  obtain r e1 w1 where s1: "startup hs ent w = (r, e1, w1)" by (cases "startup hs ent w") auto
  show ?thesis
  proof (cases r)
    case (Some e)
    with s1 assms show ?thesis by (simp add: startup_append)
  next
    case None
    with s1 assms have "startup [Run_listener] e1 w1 = (None, ent', w')"
      by (simp add: startup_append)
    then show ?thesis by (auto simp: step_defs Let_def waiting_def)
  qed
qed

subsection \<open>The phases of the listener\<close>

lemma waiting_other:
  assumes "waiting w" and "s \<noteq> SetShutdownEvent"
  shows "waiting (snd (deliver p s w)) \<and> fst (deliver p s w) = (s = ExternalSignal)"
  using assms
  by (cases s) (auto simp: waiting_def step_defs split: option.splits task.splits)

lemma waiting_set:
  assumes "waiting w"
  shows "sleeping (snd (deliver p SetShutdownEvent w)) \<and> \<not> fst (deliver p SetShutdownEvent w)"
  using assms by (auto simp: waiting_def sleeping_def step_defs)

lemma sleeping_other:
  assumes "sleeping w" and "s \<noteq> TimePasses"
  shows "sleeping (snd (deliver p s w)) \<and> fst (deliver p s w) = (s = ExternalSignal)"
  using assms
  by (cases s)
     (auto simp: sleeping_def step_defs split: option.splits task.splits entry.splits)

lemma sleeping_tick:
  assumes "sleeping w"
  shows "listener_task (snd (deliver p TimePasses w)) = Some (Done T_Result) \<and>
         fst (deliver p TimePasses w)"
  using assms by (auto simp: sleeping_def step_defs)

lemma serve_stays_waiting:
  "waiting w \<Longrightarrow> SetShutdownEvent \<notin> set ss \<Longrightarrow> waiting (snd (serve p ss w))"
proof (induction ss arbitrary: w)
  case Nil
  then show ?case by simp
next
  case (Cons s ss)
  obtain b w' where d: "deliver p s w = (b, w')" by (cases "deliver p s w")
  have "s \<noteq> SetShutdownEvent" using Cons.prems(2) by auto
  then have "waiting w'" using waiting_other [of w s p] Cons.prems(1) d by simp
  then show ?case using d Cons.IH [of w'] Cons.prems by (cases b) simp_all
qed

lemma serve_stays_sleeping:
  "sleeping w \<Longrightarrow> TimePasses \<notin> set ss \<Longrightarrow> sleeping (snd (serve p ss w))"
proof (induction ss arbitrary: w)
  case Nil
  then show ?case by simp
next
  case (Cons s ss)
  obtain b w' where d: "deliver p s w = (b, w')" by (cases "deliver p s w")
  have "s \<noteq> TimePasses" using Cons.prems(2) by auto
  then have "sleeping w'" using sleeping_other [of w s p] Cons.prems(1) d by simp
  then show ?case using d Cons.IH [of w'] Cons.prems by (cases b) simp_all
qed

text \<open>
  Without a signal from outside the server loop stops only when the listener has sent
  its own; and once the event was set, a loop that still runs has a sleeping listener.
\<close>

lemma serve_progress:
  assumes "waiting w \<or> sleeping w" and "ExternalSignal \<notin> set ss"
  shows "if fst (serve p ss w)
         then listener_task (snd (serve p ss w)) = Some (Done T_Result)
         else (waiting (snd (serve p ss w)) \<or> sleeping (snd (serve p ss w))) \<and>
              (sleeping w \<or> SetShutdownEvent \<in> set ss \<longrightarrow> sleeping (snd (serve p ss w)))"
  using assms
proof (induction ss arbitrary: w)
  case Nil
  then show ?case by simp
next
  case (Cons s ss)
  obtain b w' where d: "deliver p s w = (b, w')" by (cases "deliver p s w")
  have ne: "s \<noteq> ExternalSignal" and rest: "ExternalSignal \<notin> set ss"
    using Cons.prems(2) by auto
  show ?case
  proof (cases "sleeping w")
    case True
    show ?thesis
    proof (cases "s = TimePasses")
      case True
      with \<open>sleeping w\<close> sleeping_tick [of w p] d show ?thesis by simp
    next
      case False
      with \<open>sleeping w\<close> sleeping_other [of w s p] d ne
      have "sleeping w'" and "\<not> b" by simp_all
      with Cons.IH [of w'] rest d show ?thesis by simp
    qed
  next
    case False
    with Cons.prems(1) have wt: "waiting w" by simp
    show ?thesis
    proof (cases "s = SetShutdownEvent")
      case True
      with wt waiting_set [of w p] d have "sleeping w'" and "\<not> b" by simp_all
      with Cons.IH [of w'] rest d True show ?thesis by simp
    next
      case False
      with wt waiting_other [of w s p] d ne have "waiting w'" and "\<not> b" by simp_all
      with Cons.IH [of w'] rest d False \<open>\<not> sleeping w\<close> show ?thesis
        by (auto simp: sleeping_def waiting_def)
    qed
  qed
qed

lemma serve_kills:
  assumes "waiting w" and "ExternalSignal \<notin> set pre" and "ExternalSignal \<notin> set mid"
  shows "fst (serve p (pre @ SetShutdownEvent # mid @ TimePasses # post) w) \<and>
         listener_task (snd (serve p (pre @ SetShutdownEvent # mid @ TimePasses # post) w)) =
           Some (Done T_Result)"
proof -
  let ?xs = "pre @ SetShutdownEvent # mid"
  have xs: "ExternalSignal \<notin> set ?xs" using assms by simp
  have split: "pre @ SetShutdownEvent # mid @ TimePasses # post = ?xs @ TimePasses # post"
    by simp
  obtain b w' where sv: "serve p ?xs w = (b, w')" by (cases "serve p ?xs w")
  have pr: "if b then listener_task w' = Some (Done T_Result) else sleeping w'"
    using serve_progress [of w ?xs p] assms(1) xs sv by (auto split: if_splits)
  have ap: "serve p (?xs @ TimePasses # post) w =
      (case serve p ?xs w of (True, w') \<Rightarrow> (True, w')
       | (False, w') \<Rightarrow> serve p (TimePasses # post) w')"
    by (rule serve_append)
  have "fst (serve p (?xs @ TimePasses # post) w) \<and>
        listener_task (snd (serve p (?xs @ TimePasses # post) w)) = Some (Done T_Result)"
  proof (cases b)
    case True
    with pr sv ap show ?thesis by simp
  next
    case False
    with pr have sl: "sleeping w'" by simp
    obtain b2 w2 where d2: "deliver p TimePasses w' = (b2, w2)"
      by (cases "deliver p TimePasses w'")
    with sleeping_tick [OF sl, of p] have "b2" and "listener_task w2 = Some (Done T_Result)"
      by simp_all
    with sv False ap d2 show ?thesis by simp
  qed
  then show ?thesis by (simp only: split)
qed

subsection \<open>The task of main while the server runs\<close>

lemma deliver_main_done:
  "main_task w = Some (Done x) \<Longrightarrow> main_task (snd (deliver p s w)) = Some (Done x)"
  by (cases s)
     (auto simp: step_defs split: option.splits task.splits entry.splits listener_pc.splits)

lemma serve_main_done:
  "main_task w = Some (Done x) \<Longrightarrow> main_task (snd (serve p ss w)) = Some (Done x)"
proof (induction ss arbitrary: w)
  case Nil
  then show ?case by simp
next
  case (Cons s ss)
  obtain b w' where d: "deliver p s w = (b, w')" by (cases "deliver p s w")
  have "main_task w' = Some (Done x)" using deliver_main_done [of w x p s] Cons.prems d by simp
  then show ?case using d Cons.IH [of w'] by (cases b) simp_all
qed





lemma deliver_listener_ok:
  "listener_ok (listener_task w) \<Longrightarrow> listener_ok (listener_task (snd (deliver p s w)))"
  by (cases s)
     (auto simp: step_defs elim: listener_ok.elims
           split: option.splits task.splits entry.splits listener_pc.splits)

lemma serve_listener_ok:
  "listener_ok (listener_task w) \<Longrightarrow> listener_ok (listener_task (snd (serve p ss w)))"
proof (induction ss arbitrary: w)
  case Nil
  then show ?case by simp
next
  case (Cons s ss)
  obtain b w' where d: "deliver p s w = (b, w')" by (cases "deliver p s w")
  have "listener_ok (listener_task w')" using deliver_listener_ok [of w p s] Cons.prems d by simp
  then show ?case using d Cons.IH [of w'] by (cases b) simp_all
qed

subsection \<open>Setting the event again\<close>

lemma set_settles: "settled (snd (deliver p SetShutdownEvent w))"
  by (auto simp: settled_def step_defs split: option.splits entry.splits)

lemma settled_deliver: "settled w \<Longrightarrow> settled (snd (deliver p s w))"
  by (cases s)
     (auto simp: settled_def step_defs
           split: option.splits entry.splits task.splits listener_pc.splits if_splits)

lemma settled_serve: "settled w \<Longrightarrow> settled (snd (serve p ss w))"
proof (induction ss arbitrary: w)
  case Nil
  then show ?case by simp
next
  case (Cons s ss)
  obtain b w' where d: "deliver p s w = (b, w')" by (cases "deliver p s w")
  have "settled w'" using settled_deliver [of w p s] Cons.prems d by simp
  then show ?case using d Cons.IH [of w'] by (cases b) simp_all
qed

lemma settled_set_noop:
  assumes "settled w"
  shows "deliver p SetShutdownEvent w = (False, w)"
proof (cases "store (app w) ''shutdown_event''")
  case None
  then show ?thesis by (simp add: step_defs)
next
  case (Some v)
  show ?thesis
  proof (cases v)
    case (VEvent b)
    with Some assms have b: "b" and l: "listener_task w \<noteq> Some (Pending AtWait)"
      by (simp_all add: settled_def)
    have "(store (app w))(''shutdown_event'' \<mapsto> VEvent True) = store (app w)"
      using Some VEvent b by (auto simp: fun_upd_idem_iff)
    then show ?thesis using Some VEvent l by (simp add: step_defs)
  qed (use Some in \<open>simp_all add: step_defs\<close>)
qed

lemma serve_set_twice:
  "serve p (pre @ SetShutdownEvent # mid @ SetShutdownEvent # post) w =
   serve p (pre @ SetShutdownEvent # mid @ post) w"
proof -
  have tail: "serve p (mid @ SetShutdownEvent # post) w2 = serve p (mid @ post) w2"
    if "settled w2" for w2
  proof -
    obtain b w3 where sm: "serve p mid w2 = (b, w3)" by (cases "serve p mid w2")
    have "settled w3" using settled_serve [OF that, of p mid] sm by simp
    then have "deliver p SetShutdownEvent w3 = (False, w3)" by (rule settled_set_noop)
    then show ?thesis using sm by (cases b) (simp_all add: serve_append)
  qed
  have mid: "serve p (SetShutdownEvent # mid @ SetShutdownEvent # post) w1 =
             serve p (SetShutdownEvent # mid @ post) w1" for w1
  proof -
    obtain b w2 where d: "deliver p SetShutdownEvent w1 = (b, w2)"
      by (cases "deliver p SetShutdownEvent w1")
    have "settled w2" using set_settles [of p w1] d by simp
    then show ?thesis using d tail [of w2] by (cases b) simp_all
  qed
  obtain b w1 where sp: "serve p pre w = (b, w1)" by (cases "serve p pre w")
  show ?thesis using sp mid [of w1] by (cases b) (simp_all add: serve_append)
qed

subsection \<open>The event is never reset\<close>

lemma deliver_keeps_event: "event_is_set w \<Longrightarrow> event_is_set (snd (deliver p s w))"
  by (cases s)
     (auto simp: step_defs split: option.splits entry.splits task.splits listener_pc.splits)

lemma serve_keeps_event: "event_is_set w \<Longrightarrow> event_is_set (snd (serve p ss w))"
proof (induction ss arbitrary: w)
  case Nil
  then show ?case by simp
next
  case (Cons s ss)
  obtain b w' where d: "deliver p s w = (b, w')" by (cases "deliver p s w")
  have "event_is_set w'" using deliver_keeps_event [of w p s] Cons.prems d by simp
  then show ?case using d Cons.IH [of w'] by (cases b) simp_all
qed

lemma hook_teardown_keeps_event: "event_is_set w \<Longrightarrow> event_is_set (snd (hook_teardown h w))"
  by (cases h) (auto simp: step_defs Let_def split: option.splits)

lemma cleanup_keeps_event: "event_is_set w \<Longrightarrow> event_is_set (snd (cleanup hs w))"
proof (induction hs arbitrary: w)
  case Nil
  then show ?case by simp
next
  case (Cons h hs)
  obtain r w' where d: "hook_teardown h w = (r, w')" by (cases "hook_teardown h w")
  obtain es w'' where c: "cleanup hs w' = (es, w'')" by (cases "cleanup hs w'")
  have "event_is_set w'" using hook_teardown_keeps_event [of w h] Cons.prems d by simp
  then show ?case using d c Cons.IH [of w'] by simp
qed

lemma set_sets_event:
  "store (app w) ''shutdown_event'' = Some (VEvent b) \<Longrightarrow>
   event_is_set (snd (deliver p SetShutdownEvent w))"
  by (auto simp: step_defs)

subsection \<open>Startup and teardown of the hooks\<close>

lemma hook_startup_ok:
  assumes "store (app w) ''main'' = Some (VPy (PyRoutine c))"
  shows "fst (hook_startup h w) = None \<and>
         store (app (snd (hook_startup h w))) ''main'' = Some (VPy (PyRoutine c))"
  using assms by (cases h) (auto simp: step_defs Let_def)

lemma startup_ok:
  "store (app w) ''main'' = Some (VPy (PyRoutine c)) \<Longrightarrow>
   \<exists>w'. startup hs ent w = (None, rev hs @ ent, w') \<and>
        store (app w') ''main'' = Some (VPy (PyRoutine c))"
proof (induction hs arbitrary: ent w)
  case Nil
  then show ?case by simp
next
  case (Cons h hs)
  obtain r w1 where d: "hook_startup h w = (r, w1)" by (cases "hook_startup h w")
  have "r = None" and "store (app w1) ''main'' = Some (VPy (PyRoutine c))"
    using hook_startup_ok [OF Cons.prems, of h] d by simp_all
  with Cons.IH [of w1 "h # ent"] d show ?case by auto
qed

lemma startup_users:
  "list_all is_user us \<Longrightarrow>
   startup us ent w = (None, rev us @ ent, w\<lparr>trace := trace w @ user_startups us\<rparr>)"
proof (induction us arbitrary: ent w)
  case Nil
  show ?case by (simp add: user_startups_def)
next
  case (Cons h us)
  then obtain n where h: "h = User_ctx n" by (cases h) auto
  have "hook_startup h w = (None, w\<lparr>trace := trace w @ [StartupBegin h, StartupEnd h]\<rparr>)"
    using h by (simp add: step_defs)
  with Cons show ?case by (simp add: user_startups_def)
qed

lemma cleanup_users:
  "list_all is_user us \<Longrightarrow>
   cleanup us w = ([], w\<lparr>trace := trace w @ user_teardowns us\<rparr>)"
proof (induction us arbitrary: w)
  case Nil
  show ?case by (simp add: user_teardowns_def)
next
  case (Cons h us)
  then obtain n where h: "h = User_ctx n" by (cases h) auto
  have "hook_teardown h w = (None, w\<lparr>trace := trace w @ [TeardownBegin h, TeardownEnd h]\<rparr>)"
    using h by (simp add: step_defs)
  with Cons show ?case by (simp add: user_teardowns_def)
qed

lemma startup_own:
  assumes "store (app w) ''main'' = Some (VPy (PyRoutine c))"
  shows "startup [Run_main, Run_listener] ent w =
    (None, Run_listener # Run_main # ent,
     w\<lparr>app := set_item ''shutdown_event'' (VEvent False) (app w),
       main_task := Some (create_task c),
       listener_task := Some (Pending AtWait),
       trace := trace w @ [StartupBegin Run_main, TaskCreated MainTask, StartupEnd Run_main,
                           StartupBegin Run_listener, TaskCreated ListenerTask,
                           StartupEnd Run_listener]\<rparr>)"
  using assms by (simp add: step_defs Let_def)

text \<open>
  Teardown of the two hooks of this module, the listener first, then of hooks that are
  not of this module: only the task of \<^verbatim>\<open>main\<close> can make it fail.
\<close>

lemma cleanup_own:
  assumes "listener_ok (listener_task w)" and "main_task w = Some mt" and "list_all is_user us"
  shows "\<exists>w'. cleanup (Run_listener # Run_main # us) w =
           ((case swallow_cancelled (await_task (cancel_main mt)) of
               None \<Rightarrow> [] | Some e \<Rightarrow> [e]), w') \<and>
           main_task w' = Some (Done (cancel_main mt)) \<and>
           trace w' = trace w @
             [TeardownBegin Run_listener, TaskCancel ListenerTask, TaskAwaited ListenerTask,
              TeardownEnd Run_listener, TeardownBegin Run_main, TaskCancel MainTask,
              TaskAwaited MainTask] @
             (case swallow_cancelled (await_task (cancel_main mt)) of
                None \<Rightarrow> [TeardownEnd Run_main] | Some e \<Rightarrow> []) @
             user_teardowns us"
proof -
  obtain lt where lt: "listener_task w = Some lt" using assms(1) by (cases "listener_task w") auto
  have quiet: "swallow_cancelled (await_task (cancel_listener lt)) = None"
    using assms(1) lt by (cases lt) (auto elim: listener_ok.elims)
  show ?thesis
    using lt quiet assms(2) cleanup_users [OF assms(3)]
    by (cases "swallow_cancelled (await_task (cancel_main mt))")
       (simp_all add: step_defs Let_def)
qed

subsection \<open>A call of run that reaches the server loop\<close>

lemma run_started:
  assumes "add_routes (bootstrap (PyRoutine c) path a_opt) (routes E) = (None, a3)"
    and "iscoroutine (legacy_generators E) (PyRoutine c)"
  shows "\<exists>w1. waiting w1 \<and> main_task w1 = Some (create_task c) \<and>
           filter listener_effect (trace w1) = [] \<and>
           (list_all is_user (cleanup_ctx a3) \<longrightarrow>
              trace w1 = [BasicConfig, SwaggerSetup] @ user_startups (cleanup_ctx a3) @
                [StartupBegin Run_main, TaskCreated MainTask, StartupEnd Run_main,
                 StartupBegin Run_listener, TaskCreated ListenerTask, StartupEnd Run_listener,
                 ServerAccepting]) \<and>
           run E (PyRoutine c) path a_opt =
             (case serve (pid E) (stimuli E) w1 of
                (False, w2) \<Rightarrow> finish Serving w2
              | (True, w2) \<Rightarrow>
                  (case cleanup (Run_listener # Run_main # rev (cleanup_ctx a3))
                          (emit ServerStopping w2) of
                     (es, w3) \<Rightarrow> finish (raise_cleanup es) w3))"
proof -
  let ?hs = "cleanup_ctx a3"
  let ?w0 = "init_world (a3\<lparr>cleanup_ctx := ?hs @ [Run_main, Run_listener]\<rparr>)
               [BasicConfig, SwaggerSetup]"
  have m0: "store (app ?w0) ''main'' = Some (VPy (PyRoutine c))"
    using add_routes_frame [of "bootstrap (PyRoutine c) path a_opt" "routes E"] assms
      bootstrap_store [of "PyRoutine c" path a_opt]
    by (simp add: init_world_def)
  obtain wa where sa: "startup ?hs [] ?w0 = (None, rev ?hs, wa)"
    and ma: "store (app wa) ''main'' = Some (VPy (PyRoutine c))"
    using startup_ok [OF m0, of ?hs "[]"] by auto
  let ?wb = "wa\<lparr>app := set_item ''shutdown_event'' (VEvent False) (app wa),
       main_task := Some (create_task c),
       listener_task := Some (Pending AtWait),
       trace := trace wa @ [StartupBegin Run_main, TaskCreated MainTask, StartupEnd Run_main,
                           StartupBegin Run_listener, TaskCreated ListenerTask,
                           StartupEnd Run_listener]\<rparr>"
  let ?w1 = "emit ServerAccepting ?wb"
  have st: "startup (?hs @ [Run_main, Run_listener]) [] ?w0 =
      (None, Run_listener # Run_main # rev ?hs, ?wb)"
    using sa startup_own [OF ma, of "rev ?hs"] by (simp add: startup_append)
  have qa: "filter listener_effect (trace wa) = []"
    using startup_quiet [of ?hs "[]" ?w0] sa by (simp add: init_world_def)
  have w: "waiting ?w1" by (simp add: waiting_def emit_def set_item_def)
  have mt: "main_task ?w1 = Some (create_task c)" by (simp add: emit_def)
  have q1: "filter listener_effect (trace ?w1) = []" using qa by (simp add: emit_def)
  have us: "list_all is_user ?hs \<longrightarrow>
      trace ?w1 = [BasicConfig, SwaggerSetup] @ user_startups ?hs @
                [StartupBegin Run_main, TaskCreated MainTask, StartupEnd Run_main,
                 StartupBegin Run_listener, TaskCreated ListenerTask, StartupEnd Run_listener,
                 ServerAccepting]"
  proof
    assume "list_all is_user ?hs"
    from startup_users [OF this, of "[]" ?w0] sa
    have "wa = ?w0\<lparr>trace := trace ?w0 @ user_startups ?hs\<rparr>" by simp
    then have "trace wa = [BasicConfig, SwaggerSetup] @ user_startups ?hs"
      by (simp add: init_world_def)
    then show "trace ?w1 = [BasicConfig, SwaggerSetup] @ user_startups ?hs @
                [StartupBegin Run_main, TaskCreated MainTask, StartupEnd Run_main,
                 StartupBegin Run_listener, TaskCreated ListenerTask, StartupEnd Run_listener,
                 ServerAccepting]"
      by (simp add: emit_def)
  qed
  have "run E (PyRoutine c) path a_opt = run_app (pid E) (stimuli E) ?w0"
    using run_merged [of E "PyRoutine c" path a_opt a3] assms by simp
  also have "\<dots> = (case serve (pid E) (stimuli E) ?w1 of
                (False, w2) \<Rightarrow> finish Serving w2
              | (True, w2) \<Rightarrow>
                  (case cleanup (Run_listener # Run_main # rev ?hs) (emit ServerStopping w2) of
                     (es, w3) \<Rightarrow> finish (raise_cleanup es) w3))"
    using st by (simp add: run_app_def init_world_def)
  finally show ?thesis using w mt q1 us by blast
qed

lemma listener_effects_only:
  assumes "tr @ r = [LogWarning s, SleepStarted n, Kill p g]"
  shows "filter listener_effect tr = tr"
proof -
  have "set tr \<subseteq> set (tr @ r)" by simp
  then have "\<forall>x\<in>set tr. listener_effect x" unfolding assms by auto
  then show ?thesis by simp
qed

text \<open>
  The effects of the listener in a whole call are those of the server loop, and with what
  the listener has left to do they make up its three steps.
\<close>

lemma run_listener_effects:
  assumes "add_routes (bootstrap (PyRoutine c) path a_opt) (routes E) = (None, a3)"
    and "iscoroutine (legacy_generators E) (PyRoutine c)"
  shows "\<exists>w1. waiting w1 \<and> main_task w1 = Some (create_task c) \<and>
           filter listener_effect (effects (run E (PyRoutine c) path a_opt)) @
             remaining (pid E) (listener_task (snd (serve (pid E) (stimuli E) w1))) =
           [LogWarning ''Shutting down!'', SleepStarted 1, Kill (pid E) SIGTERM]"
proof -
  obtain w1 where w: "waiting w1" and mt: "main_task w1 = Some (create_task c)"
    and q: "filter listener_effect (trace w1) = []"
    and ru: "run E (PyRoutine c) path a_opt =
             (case serve (pid E) (stimuli E) w1 of
                (False, w2) \<Rightarrow> finish Serving w2
              | (True, w2) \<Rightarrow>
                  (case cleanup (Run_listener # Run_main # rev (cleanup_ctx a3))
                          (emit ServerStopping w2) of
                     (es, w3) \<Rightarrow> finish (raise_cleanup es) w3))"
    using run_started [OF assms] by blast
  obtain b w2 where sv: "serve (pid E) (stimuli E) w1 = (b, w2)"
    by (cases "serve (pid E) (stimuli E) w1")
  obtain tr where tr: "trace w2 = trace w1 @ tr"
    and rem: "tr @ remaining (pid E) (listener_task w2) =
              [LogWarning ''Shutting down!'', SleepStarted 1, Kill (pid E) SIGTERM]"
    using serve_listener [of "pid E" "stimuli E" w1] sv w by (auto simp: waiting_def)
  have ftr: "filter listener_effect tr = tr" using rem by (rule listener_effects_only)
  have f2: "filter listener_effect (trace w2) = tr" using tr q ftr by simp
  have "filter listener_effect (effects (run E (PyRoutine c) path a_opt)) = tr"
  proof (cases b)
    case False
    with ru sv f2 show ?thesis by (simp add: finish_def)
  next
    case True
    obtain es w3 where c: "cleanup (Run_listener # Run_main # rev (cleanup_ctx a3))
                          (emit ServerStopping w2) = (es, w3)"
      by (cases "cleanup (Run_listener # Run_main # rev (cleanup_ctx a3)) (emit ServerStopping w2)")
    have "filter listener_effect (trace w3) = filter listener_effect (trace (emit ServerStopping w2))"
      using cleanup_quiet [of "Run_listener # Run_main # rev (cleanup_ctx a3)" "emit ServerStopping w2"] c
      by simp
    then have "filter listener_effect (trace w3) = tr" using f2 by (simp add: emit_def)
    with ru sv True c show ?thesis by (simp add: finish_def)
  qed
  with rem sv w mt show ?thesis by auto
qed

subsection \<open>The effects of the listener in a whole call\<close>

lemma run_cases:
  obtains (rejected) "\<not> iscoroutine (legacy_generators E) v" and "effects (run E v path a_opt) = [BasicConfig]"
  | (conflict) "iscoroutine (legacy_generators E) v" and "fst (add_routes (bootstrap v path a_opt) (routes E)) \<noteq> None"
      and "effects (run E v path a_opt) = [BasicConfig, CoroutineClosed]"
  | (merged) c a3 where "v = PyRoutine c"
      and "add_routes (bootstrap (PyRoutine c) path a_opt) (routes E) = (None, a3)"
      and "iscoroutine (legacy_generators E) (PyRoutine c)"
proof (cases "iscoroutine (legacy_generators E) v")
  case False
  then show ?thesis using rejected by (simp add: run_def)
next
  case True
  then obtain c where c: "v = PyRoutine c" using iscoroutine_cases by blast
  obtain r a3 where ar: "add_routes (bootstrap v path a_opt) (routes E) = (r, a3)"
    by (cases "add_routes (bootstrap v path a_opt) (routes E)")
  show ?thesis
  proof (cases r)
    case None
    with ar c True merged show ?thesis by simp
  next
    case (Some e)
    then obtain msg where "e = RuntimeError msg" using add_routes_error ar by blast
    with ar Some have "effects (run E v path a_opt) = [BasicConfig, CoroutineClosed]"
      using run_conflict [OF True, of path a_opt msg a3] by (simp add: finish_def init_world_def)
    with True ar Some conflict show ?thesis by simp
  qed
qed

lemma run_listener_prefix:
  "prefix (filter listener_effect (effects (run E v path a_opt)))
     [LogWarning ''Shutting down!'', SleepStarted 1, Kill (pid E) SIGTERM]"
proof (cases rule: run_cases [of E v path a_opt])
  case rejected
  then show ?thesis by simp
next
  case conflict
  then show ?thesis by simp
next
  case (merged c a3)
  from run_listener_effects [OF merged(2,3)] merged(1) show ?thesis
    by (metis prefixI)
qed

lemma run_listener_complete:
  assumes "iscoroutine (legacy_generators E) v" and "fst (add_routes (bootstrap v path a_opt) (routes E)) = None"
    and "stimuli E = pre @ SetShutdownEvent # mid @ TimePasses # post"
    and "ExternalSignal \<notin> set pre" and "ExternalSignal \<notin> set mid"
  shows "filter listener_effect (effects (run E v path a_opt)) =
           [LogWarning ''Shutting down!'', SleepStarted 1, Kill (pid E) SIGTERM]"
proof (cases rule: run_cases [of E v path a_opt])
  case rejected
  with assms(1) show ?thesis by simp
next
  case conflict
  with assms(2) show ?thesis by simp
next
  case (merged c a3)
  obtain w1 where w: "waiting w1"
    and eq: "filter listener_effect (effects (run E (PyRoutine c) path a_opt)) @
             remaining (pid E) (listener_task (snd (serve (pid E) (stimuli E) w1))) =
           [LogWarning ''Shutting down!'', SleepStarted 1, Kill (pid E) SIGTERM]"
    using run_listener_effects [OF merged(2,3)] by blast
  have "listener_task (snd (serve (pid E) (stimuli E) w1)) = Some (Done T_Result)"
    using serve_kills [OF w assms(4,5), of "pid E" post] assms(3) by simp
  with eq merged(1) show ?thesis by simp
qed

lemma run_listener_pending:
  assumes "stimuli E = pre @ SetShutdownEvent # mid"
    and "SetShutdownEvent \<notin> set pre" and "TimePasses \<notin> set mid"
  shows "Kill q g \<notin> set (effects (run E v path a_opt))"
proof (cases rule: run_cases [of E v path a_opt])
  case rejected
  then show ?thesis by simp
next
  case conflict
  then show ?thesis by simp
next
  case (merged c a3)
  obtain w1 where w: "waiting w1"
    and eq: "filter listener_effect (effects (run E (PyRoutine c) path a_opt)) @
             remaining (pid E) (listener_task (snd (serve (pid E) (stimuli E) w1))) =
           [LogWarning ''Shutting down!'', SleepStarted 1, Kill (pid E) SIGTERM]"
    using run_listener_effects [OF merged(2,3)] by blast
  let ?p = "pid E"
  obtain b w2 where sp: "serve ?p pre w1 = (b, w2)" by (cases "serve ?p pre w1")
  have w2: "waiting w2" using serve_stays_waiting [OF w assms(2), of ?p] sp by simp
  have fin: "waiting (snd (serve ?p (stimuli E) w1)) \<or> sleeping (snd (serve ?p (stimuli E) w1))"
  proof (cases b)
    case True
    with sp w2 assms(1) show ?thesis by (simp add: serve_append)
  next
    case False
    obtain b3 w3 where d: "deliver ?p SetShutdownEvent w2 = (b3, w3)"
      by (cases "deliver ?p SetShutdownEvent w2")
    have "sleeping w3" and "\<not> b3" using waiting_set [OF w2, of ?p] d by simp_all
    with serve_stays_sleeping [of w3 mid ?p] assms(3) sp False d assms(1)
    show ?thesis by (simp add: serve_append)
  qed
  have "Kill q g \<notin> set (filter listener_effect (effects (run E (PyRoutine c) path a_opt)))"
  proof
    assume k: "Kill q g \<in> set (filter listener_effect (effects (run E (PyRoutine c) path a_opt)))"
    from fin show False
    proof
      assume "waiting (snd (serve ?p (stimuli E) w1))"
      with eq have "filter listener_effect (effects (run E (PyRoutine c) path a_opt)) = []"
        by (simp add: waiting_def)
      with k show False by simp
    next
      assume "sleeping (snd (serve ?p (stimuli E) w1))"
      with eq have "filter listener_effect (effects (run E (PyRoutine c) path a_opt)) =
          [LogWarning ''Shutting down!'', SleepStarted 1]"
        by (simp add: sleeping_def)
      with k show False by simp
    qed
  qed
  with merged(1) show ?thesis by simp
qed

lemma run_listener_silent:
  assumes "SetShutdownEvent \<notin> set (stimuli E)"
  shows "filter listener_effect (effects (run E v path a_opt)) = []"
proof (cases rule: run_cases [of E v path a_opt])
  case rejected
  then show ?thesis by simp
next
  case conflict
  then show ?thesis by simp
next
  case (merged c a3)
  obtain w1 where w: "waiting w1"
    and eq: "filter listener_effect (effects (run E (PyRoutine c) path a_opt)) @
             remaining (pid E) (listener_task (snd (serve (pid E) (stimuli E) w1))) =
           [LogWarning ''Shutting down!'', SleepStarted 1, Kill (pid E) SIGTERM]"
    using run_listener_effects [OF merged(2,3)] by blast
  have "waiting (snd (serve (pid E) (stimuli E) w1))"
    using serve_stays_waiting [OF w assms] .
  with eq merged(1) show ?thesis by (simp add: waiting_def)
qed

section \<open>The shutdown listener\<close>

text \<open>
  Claim C4. The effects of the shutdown listener in a call of \<^verbatim>\<open>run\<close> are, in this order
  and each at most once, the warning, the sleep of one time unit and the termination
  signal to the own process: what the trace holds of them is always a prefix of these
  three. While the event is not set there is none of them, so no signal is issued before
  the event is set; after the event is set and until a time unit has passed no signal is
  issued either; and when the event is set and a time unit passes after it, no signal
  from outside having stopped the server before, all three have happened, the signal
  exactly once.
\<close>

theorem shutdown_listener_sequence:
  "prefix (filter listener_effect (effects (run E v path a_opt)))
     [LogWarning ''Shutting down!'', SleepStarted 1, Kill (pid E) SIGTERM] \<and>
   (SetShutdownEvent \<notin> set (stimuli E) \<longrightarrow>
      filter listener_effect (effects (run E v path a_opt)) = []) \<and>
   (stimuli E = pre @ SetShutdownEvent # mid \<and> SetShutdownEvent \<notin> set pre \<and>
    TimePasses \<notin> set mid \<longrightarrow>
      (\<forall>q g. Kill q g \<notin> set (effects (run E v path a_opt)))) \<and>
   (iscoroutine (legacy_generators E) v \<and> fst (add_routes (bootstrap v path a_opt) (routes E)) = None \<and>
    stimuli E = pre @ SetShutdownEvent # mid @ TimePasses # post \<and>
    ExternalSignal \<notin> set pre \<and> ExternalSignal \<notin> set mid \<longrightarrow>
      filter listener_effect (effects (run E v path a_opt)) =
        [LogWarning ''Shutting down!'', SleepStarted 1, Kill (pid E) SIGTERM])"
  using run_listener_prefix [of E v path a_opt] run_listener_silent [of E v path a_opt]
    run_listener_pending [of E pre mid _ _ v path a_opt]
    run_listener_complete [of E v path a_opt pre mid post]
  by blast

theorem shutdown_listener_sequence_witness:
  "iscoroutine True (PyRoutine sample_main) \<and>
   fst (add_routes (bootstrap (PyRoutine sample_main) ''/etc/app.json'' (Some plain_app))
          (routes (sample_env [TimePasses, SetShutdownEvent, MainEnds Returns, TimePasses]))) = None \<and>
   filter listener_effect
     (effects (run (sample_env [TimePasses, SetShutdownEvent, MainEnds Returns, TimePasses])
                 (PyRoutine sample_main) ''/etc/app.json'' (Some plain_app))) =
     [LogWarning ''Shutting down!'', SleepStarted 1, Kill 4242 SIGTERM] \<and>
   SetShutdownEvent \<notin> set [TimePasses] \<and> ExternalSignal \<notin> set [MainEnds Returns]"
proof -
  let ?E = "sample_env [TimePasses, SetShutdownEvent, MainEnds Returns, TimePasses]"
  have h1: "iscoroutine (legacy_generators ?E) (PyRoutine sample_main)"
    "iscoroutine True (PyRoutine sample_main)"
    by (simp_all add: sample_main_def)
  have h2: "fst (add_routes (bootstrap (PyRoutine sample_main) ''/etc/app.json'' (Some plain_app))
          (routes ?E)) = None"
    by (simp add: sample_defs bootstrap_def set_item_def Let_def)
  have h3: "stimuli ?E = [TimePasses] @ SetShutdownEvent # [MainEnds Returns] @ TimePasses # []"
    by (simp add: sample_env_def)
  have h4: "ExternalSignal \<notin> set [TimePasses]" "ExternalSignal \<notin> set [MainEnds Returns]"
    by simp_all
  have p: "pid ?E = 4242" by (simp add: sample_env_def)
  from shutdown_listener_sequence
    [of ?E "PyRoutine sample_main" "''/etc/app.json''" "Some plain_app"
        "[TimePasses]" "[MainEnds Returns]" "[]"]
    h1 h2 h3 h4 p
  show ?thesis by (simp del: iscoroutine.simps)
qed

section \<open>Setting the shutdown event twice\<close>

lemma run_app_set_twice:
  "run_app p (pre @ SetShutdownEvent # mid @ SetShutdownEvent # post) w =
   run_app p (pre @ SetShutdownEvent # mid @ post) w"
proof -
  obtain r ent w1 where st: "startup (cleanup_ctx (app w)) [] w = (r, ent, w1)"
    by (cases "startup (cleanup_ctx (app w)) [] w") auto
  show ?thesis using st by (cases r) (simp_all add: run_app_def serve_set_twice)
qed

text \<open>
  Claim C6. A call of \<^verbatim>\<open>run\<close> in which the shutdown event is set a second time gives
  what the call without the second setting gives: the same result, the same states of
  the application and of the tasks, the same effects in the same order. In such a call
  the effects of the listener are a prefix of its three steps, so the warning is logged
  at most once, one sleep is started and one signal issued; and when a time unit passes
  after the settings, the server not having been stopped from outside, they are exactly
  the three. Nothing resets the event: once it is set it stays set while the server runs
  and through the teardown.
\<close>

theorem shutdown_event_set_twice:
  "run (E\<lparr>stimuli := pre @ SetShutdownEvent # mid @ SetShutdownEvent # post\<rparr>) v path a_opt =
   run (E\<lparr>stimuli := pre @ SetShutdownEvent # mid @ post\<rparr>) v path a_opt \<and>
   prefix (filter listener_effect
             (effects (run (E\<lparr>stimuli := pre @ SetShutdownEvent # mid @ SetShutdownEvent # post\<rparr>)
                         v path a_opt)))
     [LogWarning ''Shutting down!'', SleepStarted 1, Kill (pid E) SIGTERM] \<and>
   (iscoroutine (legacy_generators E) v \<and> fst (add_routes (bootstrap v path a_opt) (routes E)) = None \<and>
    post = rest @ TimePasses # after \<and>
    ExternalSignal \<notin> set pre \<and> ExternalSignal \<notin> set mid \<and> ExternalSignal \<notin> set rest \<longrightarrow>
      filter listener_effect
        (effects (run (E\<lparr>stimuli := pre @ SetShutdownEvent # mid @ SetShutdownEvent # post\<rparr>)
                    v path a_opt)) =
        [LogWarning ''Shutting down!'', SleepStarted 1, Kill (pid E) SIGTERM]) \<and>
   (event_is_set w \<longrightarrow> event_is_set (snd (serve p ss w)) \<and> event_is_set (snd (cleanup hs w)))"
proof -
  let ?E2 = "E\<lparr>stimuli := pre @ SetShutdownEvent # mid @ SetShutdownEvent # post\<rparr>"
  have same: "run ?E2 v path a_opt =
      run (E\<lparr>stimuli := pre @ SetShutdownEvent # mid @ post\<rparr>) v path a_opt"
    by (simp add: run_def run_app_set_twice split: prod.splits option.splits exn.splits)
  have pre: "prefix (filter listener_effect (effects (run ?E2 v path a_opt)))
     [LogWarning ''Shutting down!'', SleepStarted 1, Kill (pid E) SIGTERM]"
    using run_listener_prefix [of ?E2 v path a_opt] by simp
  have live: "filter listener_effect (effects (run ?E2 v path a_opt)) =
        [LogWarning ''Shutting down!'', SleepStarted 1, Kill (pid E) SIGTERM]"
    if "iscoroutine (legacy_generators E) v" and "fst (add_routes (bootstrap v path a_opt) (routes E)) = None"
      and "post = rest @ TimePasses # after" and "ExternalSignal \<notin> set pre"
      and "ExternalSignal \<notin> set mid" and "ExternalSignal \<notin> set rest"
  proof -
    have "stimuli ?E2 = pre @ SetShutdownEvent # (mid @ SetShutdownEvent # rest) @ TimePasses # after"
      using that(3) by simp
    moreover have "ExternalSignal \<notin> set (mid @ SetShutdownEvent # rest)"
      using that(5,6) by simp
    moreover have "fst (add_routes (bootstrap v path a_opt) (routes ?E2)) = None"
      using that(2) by simp
    ultimately show ?thesis
      using run_listener_complete [of ?E2 v path a_opt pre "mid @ SetShutdownEvent # rest" after]
        that(1,4) by simp
  qed
  have keep: "event_is_set w \<longrightarrow>
      event_is_set (snd (serve p ss w)) \<and> event_is_set (snd (cleanup hs w))"
    using serve_keeps_event cleanup_keeps_event by blast
  from same pre live keep show ?thesis by blast
qed

theorem shutdown_event_set_twice_witness:
  "iscoroutine True (PyRoutine sample_main) \<and>
   fst (add_routes (bootstrap (PyRoutine sample_main) ''/etc/app.json'' None)
          (routes (sample_env []))) = None \<and>
   run (sample_env [SetShutdownEvent, SetShutdownEvent, TimePasses])
       (PyRoutine sample_main) ''/etc/app.json'' None =
   run (sample_env [SetShutdownEvent, TimePasses])
       (PyRoutine sample_main) ''/etc/app.json'' None \<and>
   filter listener_effect
     (effects (run (sample_env [SetShutdownEvent, SetShutdownEvent, TimePasses])
                 (PyRoutine sample_main) ''/etc/app.json'' None)) =
     [LogWarning ''Shutting down!'', SleepStarted 1, Kill 4242 SIGTERM] \<and>
   event_is_set (init_world (set_item ''shutdown_event'' (VEvent True) plain_app) []) \<and>
   event_is_set (snd (serve 4242 [TimePasses, SetShutdownEvent]
                   (init_world (set_item ''shutdown_event'' (VEvent True) plain_app) [])))"
proof -
  let ?w = "init_world (set_item ''shutdown_event'' (VEvent True) plain_app) []"
  have h1: "iscoroutine gen (PyRoutine sample_main)" for gen
    by (simp add: sample_main_def)
  have h2: "fst (add_routes (bootstrap (PyRoutine sample_main) ''/etc/app.json'' None)
          (routes (sample_env []))) = None"
    by (simp add: sample_defs bootstrap_def set_item_def Let_def Application_def)
  have h3: "event_is_set ?w"
    by (simp add: event_is_set_def init_world_def set_item_def)
  have e2: "(sample_env [])\<lparr>stimuli := [] @ SetShutdownEvent # [] @ SetShutdownEvent # [TimePasses]\<rparr> =
      sample_env [SetShutdownEvent, SetShutdownEvent, TimePasses]"
    by (simp add: sample_env_def)
  have e1: "(sample_env [])\<lparr>stimuli := [] @ SetShutdownEvent # [] @ [TimePasses]\<rparr> =
      sample_env [SetShutdownEvent, TimePasses]"
    by (simp add: sample_env_def)
  have p: "pid (sample_env []) = 4242" by (simp add: sample_env_def)
  have h4: "[TimePasses] = [] @ TimePasses # []" "ExternalSignal \<notin> set []" by simp_all
  note t = shutdown_event_set_twice
    [where E = "sample_env []" and pre = "[]" and mid = "[]" and post = "[TimePasses]"
       and v = "PyRoutine sample_main" and path = "''/etc/app.json''" and a_opt = None
       and rest = "[]" and after = "[]" and w = ?w and p = 4242
       and ss = "[TimePasses, SetShutdownEvent]" and hs = "[]", unfolded e1 e2 p]
  from t h1 h2 h3 h4 show ?thesis by blast
qed

section \<open>Calls with the hooks of this module only\<close>

lemma deliver_main_some:
  "main_task w = Some t \<Longrightarrow> \<exists>t'. main_task (snd (deliver p s w)) = Some t'"
  by (cases s)
     (auto simp: step_defs split: option.splits task.splits entry.splits listener_pc.splits)

lemma serve_main_some:
  "main_task w = Some t \<Longrightarrow> \<exists>t'. main_task (snd (serve p ss w)) = Some t'"
proof (induction ss arbitrary: w t)
  case Nil
  then show ?case by simp
next
  case (Cons s ss)
  obtain b w' where d: "deliver p s w = (b, w')" by (cases "deliver p s w")
  obtain t' where "main_task w' = Some t'"
    using deliver_main_some [OF Cons.prems, of p s] d by auto
  then show ?case using d Cons.IH [of w' t'] by (cases b) simp_all
qed

lemma users_merged:
  assumes "user_hooks_only a_opt"
    and "add_routes (bootstrap v path a_opt) rs = (r, a3)"
  shows "list_all is_user (cleanup_ctx a3)"
proof -
  have "cleanup_ctx a3 = cleanup_ctx (bootstrap v path a_opt)"
    using add_routes_frame [of "bootstrap v path a_opt" rs] assms(2) by simp
  then show ?thesis
    using assms(1) bootstrap_supplied [of v path] bootstrap_fresh [of v path]
    by (cases a_opt) simp_all
qed

text \<open>
  The whole of a call that reaches the server loop, when the application holds no hook
  of this module from before.
\<close>

lemma run_shape:
  assumes "add_routes (bootstrap (PyRoutine c) path a_opt) (routes E) = (None, a3)"
    and "user_hooks_only a_opt"
    and "iscoroutine (legacy_generators E) (PyRoutine c)"
  shows "\<exists>w1. waiting w1 \<and> main_task w1 = Some (create_task c) \<and>
     trace w1 = [BasicConfig, SwaggerSetup] @ user_startups (cleanup_ctx a3) @
        [StartupBegin Run_main, TaskCreated MainTask, StartupEnd Run_main,
         StartupBegin Run_listener, TaskCreated ListenerTask, StartupEnd Run_listener,
         ServerAccepting] \<and>
     (\<forall>w2. serve (pid E) (stimuli E) w1 = (False, w2) \<longrightarrow>
        result (run E (PyRoutine c) path a_opt) = Serving \<and>
        main_after (run E (PyRoutine c) path a_opt) = main_task w2 \<and>
        effects (run E (PyRoutine c) path a_opt) = trace w2) \<and>
     (\<forall>w2. serve (pid E) (stimuli E) w1 = (True, w2) \<longrightarrow>
        (\<exists>mt. main_task w2 = Some mt \<and>
           result (run E (PyRoutine c) path a_opt) =
             (case swallow_cancelled (await_task (cancel_main mt)) of
                None \<Rightarrow> Returned | Some e \<Rightarrow> Raised e) \<and>
           main_after (run E (PyRoutine c) path a_opt) = Some (Done (cancel_main mt)) \<and>
           effects (run E (PyRoutine c) path a_opt) = trace w2 @
             [ServerStopping, TeardownBegin Run_listener, TaskCancel ListenerTask,
              TaskAwaited ListenerTask, TeardownEnd Run_listener, TeardownBegin Run_main,
              TaskCancel MainTask, TaskAwaited MainTask] @
             (case swallow_cancelled (await_task (cancel_main mt)) of
                None \<Rightarrow> [TeardownEnd Run_main] | Some e \<Rightarrow> []) @
             user_teardowns (rev (cleanup_ctx a3))))"
proof -
  let ?hs = "cleanup_ctx a3"
  have us: "list_all is_user ?hs" using users_merged [OF assms(2,1)] .
  obtain w1 where w: "waiting w1" and mt: "main_task w1 = Some (create_task c)"
    and tr: "trace w1 = [BasicConfig, SwaggerSetup] @ user_startups ?hs @
        [StartupBegin Run_main, TaskCreated MainTask, StartupEnd Run_main,
         StartupBegin Run_listener, TaskCreated ListenerTask, StartupEnd Run_listener,
         ServerAccepting]"
    and ru: "run E (PyRoutine c) path a_opt =
             (case serve (pid E) (stimuli E) w1 of
                (False, w2) \<Rightarrow> finish Serving w2
              | (True, w2) \<Rightarrow>
                  (case cleanup (Run_listener # Run_main # rev ?hs) (emit ServerStopping w2) of
                     (es, w3) \<Rightarrow> finish (raise_cleanup es) w3))"
    using run_started [OF assms(1,3)] us by blast
  have no: "result (run E (PyRoutine c) path a_opt) = Serving \<and>
        main_after (run E (PyRoutine c) path a_opt) = main_task w2 \<and>
        effects (run E (PyRoutine c) path a_opt) = trace w2"
    if "serve (pid E) (stimuli E) w1 = (False, w2)" for w2
    using that ru by (simp add: finish_def)
  have yes: "\<exists>mt. main_task w2 = Some mt \<and>
           result (run E (PyRoutine c) path a_opt) =
             (case swallow_cancelled (await_task (cancel_main mt)) of
                None \<Rightarrow> Returned | Some e \<Rightarrow> Raised e) \<and>
           main_after (run E (PyRoutine c) path a_opt) = Some (Done (cancel_main mt)) \<and>
           effects (run E (PyRoutine c) path a_opt) = trace w2 @
             [ServerStopping, TeardownBegin Run_listener, TaskCancel ListenerTask,
              TaskAwaited ListenerTask, TeardownEnd Run_listener, TeardownBegin Run_main,
              TaskCancel MainTask, TaskAwaited MainTask] @
             (case swallow_cancelled (await_task (cancel_main mt)) of
                None \<Rightarrow> [TeardownEnd Run_main] | Some e \<Rightarrow> []) @
             user_teardowns (rev ?hs)"
    if sv: "serve (pid E) (stimuli E) w1 = (True, w2)" for w2
  proof -
    obtain m2 where m2: "main_task w2 = Some m2"
      using serve_main_some [OF mt, of "pid E" "stimuli E"] sv by auto
    have "listener_ok (listener_task w1)" using w by (simp add: waiting_def)
    then have lo: "listener_ok (listener_task w2)"
      using serve_listener_ok [of w1 "pid E" "stimuli E"] sv by simp
    let ?w = "emit ServerStopping w2"
    have "listener_ok (listener_task ?w)" and "main_task ?w = Some m2"
      using lo m2 by (simp_all add: emit_def)
    moreover have "list_all is_user (rev ?hs)" using us by simp
    ultimately obtain w3 where
      c: "cleanup (Run_listener # Run_main # rev ?hs) ?w =
           ((case swallow_cancelled (await_task (cancel_main m2)) of
               None \<Rightarrow> [] | Some e \<Rightarrow> [e]), w3)"
      and m3: "main_task w3 = Some (Done (cancel_main m2))"
      and t3: "trace w3 = trace ?w @
             [TeardownBegin Run_listener, TaskCancel ListenerTask, TaskAwaited ListenerTask,
              TeardownEnd Run_listener, TeardownBegin Run_main, TaskCancel MainTask,
              TaskAwaited MainTask] @
             (case swallow_cancelled (await_task (cancel_main m2)) of
                None \<Rightarrow> [TeardownEnd Run_main] | Some e \<Rightarrow> []) @
             user_teardowns (rev ?hs)"
      using cleanup_own [of ?w m2 "rev ?hs"] by blast
    have r: "run E (PyRoutine c) path a_opt =
        finish (raise_cleanup (case swallow_cancelled (await_task (cancel_main m2)) of
               None \<Rightarrow> [] | Some e \<Rightarrow> [e])) w3"
      using ru sv c by simp
    have "result (run E (PyRoutine c) path a_opt) =
             (case swallow_cancelled (await_task (cancel_main m2)) of
                None \<Rightarrow> Returned | Some e \<Rightarrow> Raised e)"
      unfolding r by (cases "swallow_cancelled (await_task (cancel_main m2))")
                     (simp_all add: finish_def)
    moreover have "main_after (run E (PyRoutine c) path a_opt) = Some (Done (cancel_main m2))"
      unfolding r using m3 by (simp add: finish_def)
    moreover have "effects (run E (PyRoutine c) path a_opt) = trace w2 @
             [ServerStopping, TeardownBegin Run_listener, TaskCancel ListenerTask,
              TaskAwaited ListenerTask, TeardownEnd Run_listener, TeardownBegin Run_main,
              TaskCancel MainTask, TaskAwaited MainTask] @
             (case swallow_cancelled (await_task (cancel_main m2)) of
                None \<Rightarrow> [TeardownEnd Run_main] | Some e \<Rightarrow> []) @
             user_teardowns (rev ?hs)"
      unfolding r using t3 by (simp add: finish_def emit_def)
    ultimately show ?thesis using m2 by blast
  qed
  from w mt tr no yes show ?thesis by blast
qed

section \<open>Teardown of the task of main\<close>






section \<open>The order of startup and teardown\<close>

lemma user_startups_hidden: "list_all is_user us \<Longrightarrow> filter lifecycle (user_startups us) = []"
  by (induction us) (auto simp: user_startups_def)

lemma user_teardowns_hidden: "list_all is_user us \<Longrightarrow> filter lifecycle (user_teardowns us) = []"
  by (induction us) (auto simp: user_teardowns_def)

lemma listener_effect_hidden: "listener_effect x \<Longrightarrow> \<not> lifecycle x"
  by (cases x) auto

lemma serve_hidden:
  assumes "waiting w"
  shows "filter lifecycle (trace (snd (serve p ss w))) = filter lifecycle (trace w)"
proof -
  obtain tr where tr: "trace (snd (serve p ss w)) = trace w @ tr"
    and rem: "tr @ remaining p (listener_task (snd (serve p ss w))) =
              [LogWarning ''Shutting down!'', SleepStarted 1, Kill p SIGTERM]"
    using serve_listener [of p ss w] assms by (auto simp: waiting_def)
  have "filter listener_effect tr = tr" using rem by (rule listener_effects_only)
  then have "\<forall>x\<in>set tr. listener_effect x" by (metis filter_id_conv)
  then have "filter lifecycle tr = []" using listener_effect_hidden by (auto simp: filter_empty_conv)
  with tr show ?thesis by simp
qed

text \<open>
  Claim C5. In a call of \<^verbatim>\<open>run\<close> that reaches the server loop, the startup part of
  \<^verbatim>\<open>run_main\<close> has completed before that of \<^verbatim>\<open>run_listener\<close> begins, and both before
  the server accepts connections. When the server loop has stopped, the teardown part of
  \<^verbatim>\<open>run_listener\<close> begins, awaits the listener task and completes, and only then the
  teardown part of \<^verbatim>\<open>run_main\<close> begins and awaits the task of \<^verbatim>\<open>main\<close>; it completes
  when that task raised nothing. The application holds no hook of this module from before.
\<close>

theorem hooks_run_in_order:
  assumes "iscoroutine (legacy_generators E) v"
    and "fst (add_routes (bootstrap v path a_opt) (routes E)) = None"
    and "user_hooks_only a_opt"
  shows "take 5 (filter lifecycle (effects (run E v path a_opt))) =
           [StartupBegin Run_main, StartupEnd Run_main, StartupBegin Run_listener,
            StartupEnd Run_listener, ServerAccepting] \<and>
         (result (run E v path a_opt) = Serving \<longrightarrow>
            filter lifecycle (effects (run E v path a_opt)) =
              [StartupBegin Run_main, StartupEnd Run_main, StartupBegin Run_listener,
               StartupEnd Run_listener, ServerAccepting]) \<and>
         (result (run E v path a_opt) \<noteq> Serving \<longrightarrow>
            filter lifecycle (effects (run E v path a_opt)) =
              [StartupBegin Run_main, StartupEnd Run_main, StartupBegin Run_listener,
               StartupEnd Run_listener, ServerAccepting,
               TeardownBegin Run_listener, TaskAwaited ListenerTask, TeardownEnd Run_listener,
               TeardownBegin Run_main, TaskAwaited MainTask] @
              (if result (run E v path a_opt) = Returned then [TeardownEnd Run_main] else []))"
proof -
  obtain c where c: "v = PyRoutine c" using assms(1) iscoroutine_cases by blast
  obtain a3 where merge: "add_routes (bootstrap (PyRoutine c) path a_opt) (routes E) = (None, a3)"
    using assms(2) c by (cases "add_routes (bootstrap v path a_opt) (routes E)") auto
  let ?r = "run E (PyRoutine c) path a_opt"
  let ?hs = "cleanup_ctx a3"
  let ?up = "[StartupBegin Run_main, StartupEnd Run_main, StartupBegin Run_listener,
              StartupEnd Run_listener, ServerAccepting]"
  have us: "list_all is_user ?hs" using users_merged [OF assms(3) merge] .
  obtain w1 where w: "waiting w1"
    and tr: "trace w1 = [BasicConfig, SwaggerSetup] @ user_startups ?hs @
        [StartupBegin Run_main, TaskCreated MainTask, StartupEnd Run_main,
         StartupBegin Run_listener, TaskCreated ListenerTask, StartupEnd Run_listener,
         ServerAccepting]"
    and no: "\<forall>w2. serve (pid E) (stimuli E) w1 = (False, w2) \<longrightarrow>
        result ?r = Serving \<and> main_after ?r = main_task w2 \<and> effects ?r = trace w2"
    and yes: "\<forall>w2. serve (pid E) (stimuli E) w1 = (True, w2) \<longrightarrow>
        (\<exists>mt. main_task w2 = Some mt \<and>
           result ?r =
             (case swallow_cancelled (await_task (cancel_main mt)) of
                None \<Rightarrow> Returned | Some e \<Rightarrow> Raised e) \<and>
           main_after ?r = Some (Done (cancel_main mt)) \<and>
           effects ?r = trace w2 @
             [ServerStopping, TeardownBegin Run_listener, TaskCancel ListenerTask,
              TaskAwaited ListenerTask, TeardownEnd Run_listener, TeardownBegin Run_main,
              TaskCancel MainTask, TaskAwaited MainTask] @
             (case swallow_cancelled (await_task (cancel_main mt)) of
                None \<Rightarrow> [TeardownEnd Run_main] | Some e \<Rightarrow> []) @
             user_teardowns (rev ?hs))"
    using run_shape [OF merge assms(3)] assms(1) c by blast
  have f1: "filter lifecycle (trace w1) = ?up"
    unfolding tr using user_startups_hidden [OF us] by simp
  obtain b w2 where sv: "serve (pid E) (stimuli E) w1 = (b, w2)"
    by (cases "serve (pid E) (stimuli E) w1")
  have f2: "filter lifecycle (trace w2) = ?up"
    using serve_hidden [OF w, of "pid E" "stimuli E"] sv f1 by simp
  have td: "filter lifecycle (user_teardowns (rev ?hs)) = []"
    using user_teardowns_hidden [of "rev ?hs"] us by simp
  have "take 5 (filter lifecycle (effects ?r)) = ?up \<and>
        (result ?r = Serving \<longrightarrow> filter lifecycle (effects ?r) = ?up) \<and>
        (result ?r \<noteq> Serving \<longrightarrow>
            filter lifecycle (effects ?r) =
              [StartupBegin Run_main, StartupEnd Run_main, StartupBegin Run_listener,
               StartupEnd Run_listener, ServerAccepting,
               TeardownBegin Run_listener, TaskAwaited ListenerTask, TeardownEnd Run_listener,
               TeardownBegin Run_main, TaskAwaited MainTask] @
              (if result ?r = Returned then [TeardownEnd Run_main] else []))"
  proof (cases b)
    case False
    with no sv have "result ?r = Serving" and "effects ?r = trace w2" by simp_all
    with f2 show ?thesis by simp
  next
    case True
    with yes sv obtain mt where
      res: "result ?r = (case swallow_cancelled (await_task (cancel_main mt)) of
                None \<Rightarrow> Returned | Some e \<Rightarrow> Raised e)"
      and eff: "effects ?r = trace w2 @
             [ServerStopping, TeardownBegin Run_listener, TaskCancel ListenerTask,
              TaskAwaited ListenerTask, TeardownEnd Run_listener, TeardownBegin Run_main,
              TaskCancel MainTask, TaskAwaited MainTask] @
             (case swallow_cancelled (await_task (cancel_main mt)) of
                None \<Rightarrow> [TeardownEnd Run_main] | Some e \<Rightarrow> []) @
             user_teardowns (rev ?hs)"
      by auto
    show ?thesis
    proof (cases "swallow_cancelled (await_task (cancel_main mt))")
      case None
      with res eff f2 td show ?thesis by simp
    next
      case (Some e)
      with res eff f2 td show ?thesis by simp
    qed
  qed
  with c show ?thesis by simp
qed

theorem hooks_run_in_order_witness:
  "iscoroutine True (PyRoutine sample_main) \<and>
   fst (add_routes (bootstrap (PyRoutine sample_main) ''/etc/app.json'' (Some plain_app))
          (routes (sample_env [SetShutdownEvent, ExternalSignal]))) = None \<and>
   user_hooks_only (Some plain_app) \<and>
   result (run (sample_env [SetShutdownEvent, ExternalSignal]) (PyRoutine sample_main)
             ''/etc/app.json'' (Some plain_app)) = Returned \<and>
   filter lifecycle
     (effects (run (sample_env [SetShutdownEvent, ExternalSignal]) (PyRoutine sample_main)
                 ''/etc/app.json'' (Some plain_app))) =
     [StartupBegin Run_main, StartupEnd Run_main, StartupBegin Run_listener,
      StartupEnd Run_listener, ServerAccepting,
      TeardownBegin Run_listener, TaskAwaited ListenerTask, TeardownEnd Run_listener,
      TeardownBegin Run_main, TaskAwaited MainTask, TeardownEnd Run_main]"
proof -
  let ?E = "sample_env [SetShutdownEvent, ExternalSignal]"
  have h1: "iscoroutine gen (PyRoutine sample_main)" for gen
    by (simp add: sample_main_def)
  have h2: "fst (add_routes (bootstrap (PyRoutine sample_main) ''/etc/app.json'' (Some plain_app))
          (routes ?E)) = None"
    by (simp add: sample_defs bootstrap_def set_item_def Let_def)
  have h3: "user_hooks_only (Some plain_app)" by (simp add: plain_app_def)
  have r: "result (run ?E (PyRoutine sample_main) ''/etc/app.json'' (Some plain_app)) = Returned"
    by (simp add: sample_defs run_def bootstrap_def set_item_def Let_def
          run_app_def init_world_def step_defs create_task_def finish_def)
  from hooks_run_in_order [OF h1 h2 h3] r h1 h2 h3 show ?thesis by simp
qed

section \<open>A coroutine that was already awaited\<close>

lemma awaited_main_fails:
  assumes merge: "add_routes (bootstrap (PyRoutine c) path a_opt) (routes E) = (None, a3)"
    and users: "user_hooks_only a_opt"
    and closed: "coro_status c = CORO_CLOSED"
    and kind: "coro_kind c = CoroutineType"
  shows "TaskCreated MainTask \<in> set (effects (run E (PyRoutine c) path a_opt)) \<and>
         result (run E (PyRoutine c) path a_opt) \<in>
           {Serving, Raised (RuntimeError ''cannot reuse already awaited coroutine'')}"
proof -
  let ?r = "run E (PyRoutine c) path a_opt"
  let ?x = "T_Exception (RuntimeError ''cannot reuse already awaited coroutine'')"
  have acc: "iscoroutine (legacy_generators E) (PyRoutine c)" using kind by simp
  obtain w1 where mt: "main_task w1 = Some (create_task c)"
    and tr: "trace w1 = [BasicConfig, SwaggerSetup] @ user_startups (cleanup_ctx a3) @
        [StartupBegin Run_main, TaskCreated MainTask, StartupEnd Run_main,
         StartupBegin Run_listener, TaskCreated ListenerTask, StartupEnd Run_listener,
         ServerAccepting]"
    and no: "\<forall>w2. serve (pid E) (stimuli E) w1 = (False, w2) \<longrightarrow>
        result ?r = Serving \<and> main_after ?r = main_task w2 \<and> effects ?r = trace w2"
    and yes: "\<forall>w2. serve (pid E) (stimuli E) w1 = (True, w2) \<longrightarrow>
        (\<exists>mt. main_task w2 = Some mt \<and>
           result ?r =
             (case swallow_cancelled (await_task (cancel_main mt)) of
                None \<Rightarrow> Returned | Some e \<Rightarrow> Raised e) \<and>
           main_after ?r = Some (Done (cancel_main mt)) \<and>
           effects ?r = trace w2 @
             [ServerStopping, TeardownBegin Run_listener, TaskCancel ListenerTask,
              TaskAwaited ListenerTask, TeardownEnd Run_listener, TeardownBegin Run_main,
              TaskCancel MainTask, TaskAwaited MainTask] @
             (case swallow_cancelled (await_task (cancel_main mt)) of
                None \<Rightarrow> [TeardownEnd Run_main] | Some e \<Rightarrow> []) @
             user_teardowns (rev (cleanup_ctx a3)))"
    using run_shape [OF merge users acc] by blast
  obtain b w2 where sv: "serve (pid E) (stimuli E) w1 = (b, w2)"
    by (cases "serve (pid E) (stimuli E) w1")
  have d1: "main_task w1 = Some (Done ?x)" using mt closed kind by (simp add: create_task_def)
  have d2: "main_task w2 = Some (Done ?x)"
    using serve_main_done [OF d1, of "pid E" "stimuli E"] sv by simp
  obtain t where t2: "trace w2 = trace w1 @ t"
    using serve_listener [of "pid E" "stimuli E" w1] sv by auto
  have in2: "TaskCreated MainTask \<in> set (trace w2)" unfolding t2 tr by simp
  show ?thesis
  proof (cases b)
    case False
    with no sv in2 show ?thesis by simp
  next
    case True
    with yes sv d2 in2 show ?thesis by auto
  qed
qed

text \<open>
  Claim C7, as amended. For every argument \<^verbatim>\<open>main\<close> that the guard
  \<^verbatim>\<open>asyncio.coroutines.iscoroutine\<close> rejects (a plain function, or any other value that
  is neither a coroutine object nor, with the asyncio of Python up to 3.11, a generator
  object), \<^verbatim>\<open>run\<close> fails with the \<^verbatim>\<open>ValueError\<close> before any background activity
  starts: no task is created and no hook is entered. The guard looks at the kind of the
  object only: a coroutine that was already awaited passes it. With such a coroutine and
  no route conflict the server starts and the task of \<^verbatim>\<open>main\<close> is created; the task
  fails at its first step, and when the server loop stops \<^verbatim>\<open>run\<close> raises that
  \<^verbatim>\<open>RuntimeError\<close>.
\<close>

theorem run_rejects_before_background:
  "(\<not> iscoroutine (legacy_generators E) v \<longrightarrow>
      result (run E v path a_opt) =
        Raised (ValueError (''A coroutine was expected, got '' @ py_str v)) \<and>
      main_after (run E v path a_opt) = None \<and>
      listener_after (run E v path a_opt) = None \<and>
      (\<forall>t. TaskCreated t \<notin> set (effects (run E v path a_opt))) \<and>
      (\<forall>h. StartupBegin h \<notin> set (effects (run E v path a_opt)))) \<and>
   (coro_kind c = CoroutineType \<and> coro_status c = CORO_CLOSED \<and> user_hooks_only a_opt \<and>
    fst (add_routes (bootstrap (PyRoutine c) path a_opt) (routes E)) = None \<longrightarrow>
      iscoroutine (legacy_generators E) (PyRoutine c) \<and>
      TaskCreated MainTask \<in> set (effects (run E (PyRoutine c) path a_opt)) \<and>
      result (run E (PyRoutine c) path a_opt) \<in>
        {Serving, Raised (RuntimeError ''cannot reuse already awaited coroutine'')})"
proof -
  have one: "\<not> iscoroutine (legacy_generators E) v \<longrightarrow>
      result (run E v path a_opt) =
        Raised (ValueError (''A coroutine was expected, got '' @ py_str v)) \<and>
      main_after (run E v path a_opt) = None \<and>
      listener_after (run E v path a_opt) = None \<and>
      (\<forall>t. TaskCreated t \<notin> set (effects (run E v path a_opt))) \<and>
      (\<forall>h. StartupBegin h \<notin> set (effects (run E v path a_opt)))"
    by (simp add: run_def)
  have two: "iscoroutine (legacy_generators E) (PyRoutine c) \<and>
      TaskCreated MainTask \<in> set (effects (run E (PyRoutine c) path a_opt)) \<and>
      result (run E (PyRoutine c) path a_opt) \<in>
        {Serving, Raised (RuntimeError ''cannot reuse already awaited coroutine'')}"
    if h: "coro_kind c = CoroutineType" "coro_status c = CORO_CLOSED" "user_hooks_only a_opt"
      "fst (add_routes (bootstrap (PyRoutine c) path a_opt) (routes E)) = None"
  proof -
    obtain a3 where "add_routes (bootstrap (PyRoutine c) path a_opt) (routes E) = (None, a3)"
      using h(4) by (cases "add_routes (bootstrap (PyRoutine c) path a_opt) (routes E)") auto
    from awaited_main_fails [OF this h(3,2,1)] h(1) show ?thesis by simp
  qed
  from one two show ?thesis by blast
qed

text \<open>
  A number is rejected; an awaited coroutine in a new application is accepted and its
  task created.
\<close>

theorem run_rejects_before_background_witness:
  "\<not> iscoroutine (legacy_generators (sample_env [ExternalSignal])) (PyObject ''42'') \<and>
   result (run (sample_env [ExternalSignal]) (PyObject ''42'') ''/etc/app.json'' None) =
     Raised (ValueError ''A coroutine was expected, got 42'') \<and>
   main_after (run (sample_env [ExternalSignal]) (PyObject ''42'') ''/etc/app.json'' None) = None \<and>
   coro_kind awaited_main = CoroutineType \<and>
   coro_status awaited_main = CORO_CLOSED \<and> user_hooks_only None \<and>
   fst (add_routes (bootstrap (PyRoutine awaited_main) ''/etc/app.json'' None)
          (routes (sample_env [ExternalSignal]))) = None \<and>
   TaskCreated MainTask \<in>
     set (effects (run (sample_env [ExternalSignal]) (PyRoutine awaited_main) ''/etc/app.json'' None))"
proof -
  let ?E = "sample_env [ExternalSignal]"
  have h1: "\<not> iscoroutine (legacy_generators ?E) (PyObject ''42'')" by simp
  have s: "''A coroutine was expected, got '' @ py_str (PyObject ''42'') =
      ''A coroutine was expected, got 42''" by simp
  have h2: "coro_kind awaited_main = CoroutineType" "coro_status awaited_main = CORO_CLOSED"
    by (simp_all add: awaited_main_def)
  have h3: "user_hooks_only None" by simp
  have h4: "fst (add_routes (bootstrap (PyRoutine awaited_main) ''/etc/app.json'' None)
          (routes ?E)) = None"
    by (simp add: sample_defs bootstrap_def set_item_def Let_def Application_def)
  note t = run_rejects_before_background
    [where v = "PyObject ''42''" and E = ?E and path = "''/etc/app.json''" and a_opt = None
       and c = awaited_main, unfolded s]
  from t h1 h2 h3 h4 show ?thesis by blast
qed

text \<open>
  The claim as the specification has it fails at a coroutine that was already awaited:
  \<^verbatim>\<open>run\<close> does not reject it, the task of \<^verbatim>\<open>main\<close> is created, and the failure shows
  at teardown only.
\<close>

theorem awaited_coroutine_counterexample:
  "coro_status awaited_main = CORO_CLOSED \<and>
   result (run (sample_env [ExternalSignal]) (PyRoutine awaited_main) ''/etc/app.json'' None) =
     Raised (RuntimeError ''cannot reuse already awaited coroutine'') \<and>
   TaskCreated MainTask \<in>
     set (effects (run (sample_env [ExternalSignal]) (PyRoutine awaited_main) ''/etc/app.json'' None))"
  by (simp add: sample_defs run_def bootstrap_def Application_def set_item_def Let_def
        run_app_def init_world_def step_defs create_task_def finish_def)

end
